theory Spec2Isabelle
  imports Main "HOL-Library.AList"
begin

section \<open>Strings: \<^verbatim>\<open>os.path.splitext\<close>, \<^verbatim>\<open>str.lower\<close>, \<^verbatim>\<open>str(int)\<close>\<close>

text \<open>
  File names are the names \<^verbatim>\<open>os.listdir\<close> returns: single path components. A
  \<open>string\<close> is a list of bytes. On a string of ASCII bytes \<^verbatim>\<open>str.lower\<close> maps
  \<open>A\<close>..\<open>Z\<close> to \<open>a\<close>..\<open>z\<close> and leaves the rest; what it does to any
  other string follows Unicode's tables and is not fixed here: it is an argument
  \<open>unicode_lower\<close>, about which nothing is assumed.
\<close>

definition rfind :: "string \<Rightarrow> char \<Rightarrow> int" where
  \<comment> \<open>\<^verbatim>\<open>p.rfind(c)\<close>: the index of the last occurrence of \<open>c\<close>, or \<open>-1\<close>.\<close>
  "rfind p c =
     (if c \<in> set p
      then int (length p) - 1 - int (length (takeWhile (\<lambda>x. x \<noteq> c) (rev p)))
      else - 1)"

definition splitext :: "string \<Rightarrow> string \<times> string" where
  \<comment> \<open>\<^verbatim>\<open>genericpath._splitext(p, '/', None, '.')\<close>: the extension starts at the last dot
      of the last component, unless only dots come before it in that component.\<close>
  "splitext p =
     (let sepIndex = rfind p (CHR ''/'');
          dotIndex = rfind p (CHR ''.'')
      in if dotIndex > sepIndex \<and>
            list_ex (\<lambda>c. c \<noteq> CHR ''.'') (drop (nat (sepIndex + 1)) (take (nat dotIndex) p))
         then (take (nat dotIndex) p, drop (nat dotIndex) p)
         else (p, []))"

definition lower_char :: "char \<Rightarrow> char" where
  "lower_char c =
     (case map_of (zip ''ABCDEFGHIJKLMNOPQRSTUVWXYZ'' ''abcdefghijklmnopqrstuvwxyz'') c of
        Some l \<Rightarrow> l
      | None \<Rightarrow> c)"

definition is_ascii :: "char \<Rightarrow> bool" where
  "is_ascii c = (\<not> digit7 c)"

definition str_lower :: "(string \<Rightarrow> string) \<Rightarrow> string \<Rightarrow> string" where
  \<comment> \<open>\<^verbatim>\<open>s.lower()\<close>\<close>
  "str_lower unicode_lower s =
     (if list_all is_ascii s then map lower_char s else unicode_lower s)"

definition startswith_dot :: "string \<Rightarrow> bool" where
  \<comment> \<open>\<^verbatim>\<open>filename.startswith('.')\<close>\<close>
  "startswith_dot s = (take 1 s = ''.'')"

definition digit_char :: "nat \<Rightarrow> char" where
  "digit_char d = ''0123456789'' ! d"

fun str_nat :: "nat \<Rightarrow> string" where
  \<comment> \<open>\<^verbatim>\<open>str(counter)\<close> for a counter that is never negative.\<close>
  "str_nat n = (if n < 10 then [digit_char n] else str_nat (n div 10) @ [digit_char (n mod 10)])"

declare str_nat.simps [simp del]

fun nat_of_digits :: "nat \<Rightarrow> string \<Rightarrow> nat" where
  "nat_of_digits acc [] = acc"
| "nat_of_digits acc (c # cs) = nat_of_digits (10 * acc + (of_char c - 48)) cs"

section \<open>Collision resolution: \<^verbatim>\<open>SortingHandler.get_unique_path\<close>\<close>

definition unique_filename :: "string \<Rightarrow> nat \<Rightarrow> string \<Rightarrow> string" where
  \<comment> \<open>\<^verbatim>\<open>f"{base}({counter}){extension}"\<close>\<close>
  "unique_filename base counter extension = base @ ''('' @ str_nat counter @ '')'' @ extension"

text \<open>
  The \<^verbatim>\<open>while os.path.exists(unique_path)\<close> loop. The first argument \<open>ex\<close> says which
  names exist in the target directory: \<open>ex n\<close> is
  \<^verbatim>\<open>os.path.exists(os.path.join(target_dir, n))\<close>. A run that never leaves the loop is
  the value \<open>None\<close>.
\<close>

partial_function (option) get_unique_loop ::
  "(string \<Rightarrow> bool) \<Rightarrow> string \<Rightarrow> string \<Rightarrow> nat \<Rightarrow> string \<Rightarrow> string option" where
  "get_unique_loop ex base extension counter unique_name =
     (if ex unique_name
      then get_unique_loop ex base extension (counter + 1) (unique_filename base counter extension)
      else Some unique_name)"

declare get_unique_loop.simps [code]

definition get_unique_path :: "(string \<Rightarrow> bool) \<Rightarrow> string \<Rightarrow> string option" where
  "get_unique_path ex filename =
     (case splitext filename of
        (base, extension) \<Rightarrow> get_unique_loop ex base extension 1 filename)"

definition candidate :: "string \<Rightarrow> nat \<Rightarrow> string" where
  \<comment> \<open>The \<open>k\<close>-th name the loop probes: \<open>base.ext\<close>, \<open>base(1).ext\<close>, \<open>base(2).ext\<close>, ...\<close>
  "candidate filename k =
     (if k = 0 then filename
      else unique_filename (fst (splitext filename)) k (snd (splitext filename)))"

section \<open>The watched directory and the operating-system calls\<close>

text \<open>
  The state the program works on is the content of \<^verbatim>\<open>DOWNLOADS_DIR\<close>: a directory is
  the list of its entries in the order \<^verbatim>\<open>os.listdir\<close> reports them, an entry is a
  file with a payload or a directory with entries of its own. Paths are not spelt out:
  \<^verbatim>\<open>os.path.join(DOWNLOADS_DIR, n)\<close> is the entry \<open>n\<close> of that list, and
  \<^verbatim>\<open>os.path.join(os.path.join(DOWNLOADS_DIR, t), n)\<close> is the entry \<open>n\<close> of the
  directory \<open>t\<close>.
\<close>

datatype 'c node = File 'c | Dir "(string \<times> 'c node) list"

type_synonym 'c dir = "(string \<times> 'c node) list"

datatype exn =
    FileNotFoundError
  | NotADirectoryError
  | FileExistsError
  | ShutilError
  | UnicodeEncodeError
  | OtherError string

text \<open>
  What the program prints: the line of a successful move (file name and the base name
  of the destination) and the line of a failed one (file name and the exception).
\<close>

datatype log_line = Moved string string | MoveFailed string exn

text \<open>
  What does not follow from the directory's content is given by the environment:
  \<^item> \<open>unicode_lower\<close>: \<^verbatim>\<open>str.lower\<close> on strings that are not ASCII;
  \<^item> \<open>listdir_error\<close>, \<open>makedirs_error\<close>: the exception the call raises, if any
    (permissions, a directory that was deleted, a dangling link);
  \<^item> \<open>move_error\<close>: for a file name, the exception \<^verbatim>\<open>shutil.move\<close> raises, if any,
    and what it has left at the destination by then. \<^verbatim>\<open>shutil.move\<close> first tries
    \<^verbatim>\<open>os.rename\<close> and then copies and unlinks, so it can raise with nothing done or
    after a whole or partial copy exists at the destination; the source is still there
    in both cases;
  \<^item> \<open>print_error\<close>: for a line, the exception \<^verbatim>\<open>print\<close> raises, if any (a name that
    the encoding of the standard output cannot write, a standard output that is closed).
\<close>

record 'c environment =
  unicode_lower :: "string \<Rightarrow> string"
  listdir_error :: "exn option"
  makedirs_error :: "string \<Rightarrow> exn option"
  move_error :: "string \<Rightarrow> (exn \<times> 'c node option) option"
  print_error :: "log_line \<Rightarrow> exn option"

record 'c state =
  files :: "'c dir"
  stdout :: "log_line list"

datatype 'c outcome = Returns "'c state" | Raises exn "'c state" | Diverges

definition lower :: "'c environment \<Rightarrow> string \<Rightarrow> string" where
  "lower env s = str_lower (unicode_lower env) s"

definition os_listdir :: "'c environment \<Rightarrow> 'c dir \<Rightarrow> exn + string list" where
  "os_listdir env d = (case listdir_error env of Some e \<Rightarrow> Inl e | None \<Rightarrow> Inr (map fst d))"

definition os_path_exists :: "'c dir \<Rightarrow> string \<Rightarrow> bool" where
  "os_path_exists d name = (map_of d name \<noteq> None)"

definition os_path_isdir :: "'c dir \<Rightarrow> string \<Rightarrow> bool" where
  "os_path_isdir d name = (case map_of d name of Some (Dir es) \<Rightarrow> True | _ \<Rightarrow> False)"

definition exists_in :: "'c dir \<Rightarrow> string \<Rightarrow> string \<Rightarrow> bool" where
  \<comment> \<open>\<^verbatim>\<open>os.path.exists\<close> of a path inside the directory \<open>target_dir\<close>; false when
      \<open>target_dir\<close> is missing or is a file.\<close>
  "exists_in d target_dir name =
     (case map_of d target_dir of Some (Dir es) \<Rightarrow> map_of es name \<noteq> None | _ \<Rightarrow> False)"

definition os_makedirs :: "'c environment \<Rightarrow> 'c dir \<Rightarrow> string \<Rightarrow> exn + 'c dir" where
  "os_makedirs env d name =
     (case makedirs_error env name of
        Some e \<Rightarrow> Inl e
      | None \<Rightarrow> if map_of d name \<noteq> None then Inl FileExistsError
                else Inr (d @ [(name, Dir [])]))"

definition print_line :: "'c environment \<Rightarrow> log_line list \<Rightarrow> log_line \<Rightarrow> exn + log_line list" where
  \<comment> \<open>\<^verbatim>\<open>print(line)\<close> on the lines printed so far.\<close>
  "print_line env out l = (case print_error env l of Some e \<Rightarrow> Inl e | None \<Rightarrow> Inr (out @ [l]))"

text \<open>
  \<^verbatim>\<open>shutil.move(file_path, final_destination)\<close> from the entry \<open>filename\<close> of the
  watched directory to the name \<open>dest\<close> inside its directory \<open>target_dir\<close>. The result
  is the new directory, or the exception together with the directory as the failed
  move leaves it. It raises when the environment says so, leaving at the destination
  what the environment says, provided there is a source to copy and a directory to copy
  into. It also raises, with nothing changed, when the source is missing, when
  \<open>target_dir\<close> is missing or is a file, and when a directory is moved into itself. A
  destination file that exists is replaced, as \<^verbatim>\<open>os.rename\<close> does.
\<close>

definition leave_copy :: "'c dir \<Rightarrow> string \<Rightarrow> string \<Rightarrow> string \<Rightarrow> 'c node option \<Rightarrow> 'c dir" where
  "leave_copy d filename target_dir dest left =
     (case left of
        None \<Rightarrow> d
      | Some copy \<Rightarrow>
         (case map_of d filename of
            None \<Rightarrow> d
          | Some n \<Rightarrow>
             (case map_of d target_dir of
                Some (Dir es) \<Rightarrow>
                  if filename = target_dir then d
                  else AList.update target_dir (Dir (AList.update dest copy es)) d
              | _ \<Rightarrow> d)))"

definition shutil_move ::
  "'c environment \<Rightarrow> 'c dir \<Rightarrow> string \<Rightarrow> string \<Rightarrow> string \<Rightarrow> (exn \<times> 'c dir) + 'c dir" where
  "shutil_move env d filename target_dir dest =
     (case move_error env filename of
        Some (e, left) \<Rightarrow> Inl (e, leave_copy d filename target_dir dest left)
      | None \<Rightarrow>
         (case map_of d filename of
            None \<Rightarrow> Inl (FileNotFoundError, d)
          | Some n \<Rightarrow>
             (case map_of d target_dir of
                None \<Rightarrow> Inl (FileNotFoundError, d)
              | Some (File c) \<Rightarrow> Inl (NotADirectoryError, d)
              | Some (Dir es) \<Rightarrow>
                 if filename = target_dir then Inl (ShutilError, d)
                 else Inr (AList.delete filename
                             (AList.update target_dir (Dir (AList.update dest n es)) d)))))"

section \<open>The sorter: \<^verbatim>\<open>SortingHandler\<close>\<close>

text \<open>
  \<^verbatim>\<open>EXTENSION_MAP\<close> is the table of the module. The functions below take the table
  they read as their first argument, so that statements can also speak about tables
  that list an extension under two categories; the program is their instance at
  \<open>EXTENSION_MAP\<close>.
\<close>

definition EXTENSION_MAP :: "(string \<times> string list) list" where
  "EXTENSION_MAP =
     [(''Images'', [''.jpg'', ''.jpeg'', ''.png'', ''.gif'', ''.svg'', ''.bmp'', ''.webp'']),
      (''Documents'', [''.pdf'', ''.docx'', ''.doc'', ''.txt'', ''.xlsx'', ''.pptx'', ''.csv'']),
      (''Archives'', [''.zip'', ''.rar'', ''.7z'', ''.tar'', ''.gz'']),
      (''Video'', [''.mp4'', ''.mov'', ''.avi'', ''.mkv'', ''.wmv'']),
      (''Audio'', [''.mp3'', ''.wav'', ''.flac'', ''.m4a'']),
      (''Executables'', [''.exe'', ''.msi'', ''.dmg''])]"

text \<open>
  The \<^verbatim>\<open>except Exception as e:\<close> branch of \<^verbatim>\<open>move_file\<close>: print the failure line.
  This \<^verbatim>\<open>print\<close> is inside no \<^verbatim>\<open>try\<close>: its exception leaves \<^verbatim>\<open>move_file\<close>.
\<close>

definition except_handler :: "'c environment \<Rightarrow> 'c state \<Rightarrow> string \<Rightarrow> exn \<Rightarrow> 'c outcome" where
  "except_handler env st filename e =
     (case print_line env (stdout st) (MoveFailed filename e) of
        Inr out \<Rightarrow> Returns (st\<lparr>stdout := out\<rparr>)
      | Inl e' \<Rightarrow> Raises e' st)"

text \<open>
  The body of \<^verbatim>\<open>if extension in extensions:\<close> in \<^verbatim>\<open>move_file\<close>: create the
  category directory when it does not exist (outside the \<^verbatim>\<open>try\<close>: an exception of
  \<^verbatim>\<open>os.makedirs\<close> leaves \<^verbatim>\<open>move_file\<close>), compute the destination, then, inside
  \<^verbatim>\<open>try\<close>, move and print the line of the move; an exception of either goes to the
  \<^verbatim>\<open>except\<close> branch. The pause \<^verbatim>\<open>time.sleep(1)\<close> changes nothing here, and the
  argument \<^verbatim>\<open>file_path\<close> is always \<^verbatim>\<open>os.path.join(DOWNLOADS_DIR, filename)\<close>, the
  entry \<open>filename\<close>.
\<close>

definition move_file_into :: "'c environment \<Rightarrow> 'c state \<Rightarrow> string \<Rightarrow> string \<Rightarrow> 'c outcome" where
  "move_file_into env st folder_name filename =
     (case (if \<not> os_path_exists (files st) folder_name
            then os_makedirs env (files st) folder_name
            else Inr (files st)) of
        Inl e \<Rightarrow> Raises e st
      | Inr d \<Rightarrow>
         (case get_unique_path (exists_in d folder_name) filename of
            None \<Rightarrow> Diverges
          | Some final_destination \<Rightarrow>
             (case shutil_move env d filename folder_name final_destination of
                Inr d' \<Rightarrow>
                  (case print_line env (stdout st) (Moved filename final_destination) of
                     Inr out \<Rightarrow> Returns \<lparr>files = d', stdout = out\<rparr>
                   | Inl e \<Rightarrow> except_handler env \<lparr>files = d', stdout = stdout st\<rparr> filename e)
              | Inl (e, d') \<Rightarrow>
                  except_handler env \<lparr>files = d', stdout = stdout st\<rparr> filename e)))"

text \<open>
  \<^verbatim>\<open>for folder_name, extensions in EXTENSION_MAP.items():\<close> with its \<^verbatim>\<open>break\<close>
  after the first category that holds the extension.
\<close>

fun move_file_loop ::
  "'c environment \<Rightarrow> (string \<times> string list) list \<Rightarrow> 'c state \<Rightarrow> string \<Rightarrow> string \<Rightarrow> 'c outcome" where
  "move_file_loop env [] st filename extension = Returns st"
| "move_file_loop env ((folder_name, extensions) # items) st filename extension =
     (if extension \<in> set extensions then move_file_into env st folder_name filename
      else move_file_loop env items st filename extension)"

definition move_file ::
  "(string \<times> string list) list \<Rightarrow> 'c environment \<Rightarrow> 'c state \<Rightarrow> string \<Rightarrow> 'c outcome" where
  "move_file extension_map env st filename =
     move_file_loop env extension_map st filename (lower env (snd (splitext filename)))"

text \<open>
  \<^verbatim>\<open>sort_files\<close>: the list of names is read once, then every name is looked at in the
  directory as it is by then.
\<close>

fun sort_loop ::
  "(string \<times> string list) list \<Rightarrow> 'c environment \<Rightarrow> string list \<Rightarrow> 'c state \<Rightarrow> 'c outcome" where
  "sort_loop extension_map env [] st = Returns st"
| "sort_loop extension_map env (filename # rest) st =
     (if os_path_isdir (files st) filename \<or> startswith_dot filename
      then sort_loop extension_map env rest st
      else (case move_file extension_map env st filename of
              Returns st' \<Rightarrow> sort_loop extension_map env rest st'
            | Raises e st' \<Rightarrow> Raises e st'
            | Diverges \<Rightarrow> Diverges))"

definition sort_files ::
  "(string \<times> string list) list \<Rightarrow> 'c environment \<Rightarrow> 'c state \<Rightarrow> 'c outcome" where
  "sort_files extension_map env st =
     (case os_listdir env (files st) of
        Inl e \<Rightarrow> Raises e st
      | Inr names \<Rightarrow> sort_loop extension_map env names st)"

record event =
  is_directory :: bool
  src_path :: string

definition on_modified ::
  "(string \<times> string list) list \<Rightarrow> 'c environment \<Rightarrow> event \<Rightarrow> 'c state \<Rightarrow> 'c outcome" where
  "on_modified extension_map env ev st =
     (if \<not> is_directory ev then sort_files extension_map env st else Returns st)"

text \<open>
  The specification's \<open>Classify\<close>, on the lower-case extension of a file name: the first
  category of the rules, in their order, that holds the extension.
\<close>

definition Classify_spec :: "(string \<times> string list) list \<Rightarrow> string \<Rightarrow> string option" where
  "Classify_spec rules extension =
     map_option fst (find (\<lambda>(folder_name, extensions). extension \<in> set extensions) rules)"

text \<open>The state an outcome leaves behind, when there is one.\<close>

fun state_of :: "'c outcome \<Rightarrow> 'c state option" where
  "state_of (Returns st) = Some st"
| "state_of (Raises e st) = Some st"
| "state_of Diverges = None"

definition category_of :: "'c environment \<Rightarrow> string \<Rightarrow> string option" where
  \<comment> \<open>The category \<^verbatim>\<open>move_file\<close> finds in \<open>EXTENSION_MAP\<close>: \<open>Classify\<close> on the
      lower-case extension that \<^verbatim>\<open>os.path.splitext\<close> gives.\<close>
  "category_of env filename =
     Classify_spec EXTENSION_MAP (lower env (snd (splitext filename)))"

text \<open>
  Notions for stating what a run changes: the directory as \<^verbatim>\<open>move_file\<close> has it
  after making sure the category directory is there; a directory that has kept every
  entry of another one; and a directory in which every file that a run would try to
  move is either still to be looked at or has had its failure printed.
\<close>

definition ensure_dir :: "'c dir \<Rightarrow> string \<Rightarrow> 'c dir" where
  "ensure_dir d t = (if map_of d t = None then d @ [(t, Dir [])] else d)"

definition keeps :: "'c dir \<Rightarrow> 'c dir \<Rightarrow> bool" where
  "keeps es es' = (\<forall>x y. map_of es x = Some y \<longrightarrow> map_of es' x = Some y)"

definition accounted :: "'c environment \<Rightarrow> 'c dir \<Rightarrow> string set \<Rightarrow> log_line list \<Rightarrow> bool" where
  "accounted env d todo outs =
     (\<forall>n c t. map_of d n = Some (File c) \<and> \<not> startswith_dot n \<and> category_of env n = Some t
        \<longrightarrow> n \<in> todo \<or> (\<exists>e. MoveFailed n e \<in> set outs))"

text \<open>
  The environment in which nothing fails; its \<open>unicode_lower\<close> is never asked in the
  examples below, whose names are ASCII.
\<close>

definition no_faults :: "'c environment" where
  "no_faults =
     \<lparr>unicode_lower = (\<lambda>s. s), listdir_error = None, makedirs_error = (\<lambda>n. None),
      move_error = (\<lambda>n. None), print_error = (\<lambda>l. None)\<rparr>"

text \<open>
  The scenarios of the specification as one directory: a picture with an upper-case
  extension, an archive whose name is taken in \<open>Archives\<close>, a hidden file, an empty
  folder, a file without extension and one with an extension no category has. The
  second state is the directory after one run.
\<close>

definition example_state :: "nat state" where
  "example_state =
     \<lparr>files = [(''photo.PNG'', File 1), (''archive.zip'', File 2),
               (''Archives'', Dir [(''archive.zip'', File 0)]), (''.gitkeep'', File 3),
               (''Misc'', Dir []), (''notes'', File 4), (''x.unknown'', File 5)],
      stdout = []\<rparr>"

definition example_sorted :: "nat state" where
  "example_sorted =
     \<lparr>files = [(''Archives'', Dir [(''archive.zip'', File 0), (''archive(1).zip'', File 2)]),
               (''.gitkeep'', File 3), (''Misc'', Dir []), (''notes'', File 4),
               (''x.unknown'', File 5), (''Images'', Dir [(''photo.PNG'', File 1)])],
      stdout = [Moved ''photo.PNG'' ''photo.PNG'', Moved ''archive.zip'' ''archive(1).zip'']\<rparr>"

text \<open>
  Two files for two categories, and three environments: one where moving \<open>a.png\<close>
  raises after a copy has been made in the category folder (the copy is there, the
  source cannot be unlinked), one where in addition nothing can be printed (the
  standard output is closed, as it is for a background process whose terminal is
  gone), one where creating the folder \<open>Images\<close> raises.
\<close>

definition example_two :: "nat state" where
  "example_two = \<lparr>files = [(''a.png'', File 1), (''b.pdf'', File 2)], stdout = []\<rparr>"

definition move_denied :: "nat environment" where
  "move_denied =
     \<lparr>unicode_lower = (\<lambda>s. s), listdir_error = None, makedirs_error = (\<lambda>n. None),
      move_error = (\<lambda>n. if n = ''a.png''
                         then Some (OtherError ''Permission denied'', Some (File 1)) else None),
      print_error = (\<lambda>l. None)\<rparr>"

definition print_denied :: "nat environment" where
  "print_denied =
     \<lparr>unicode_lower = (\<lambda>s. s), listdir_error = None, makedirs_error = (\<lambda>n. None),
      move_error = (\<lambda>n. if n = ''a.png''
                         then Some (OtherError ''Permission denied'', Some (File 1)) else None),
      print_error = (\<lambda>l. Some (OtherError ''Input/output error''))\<rparr>"

definition makedirs_denied :: "nat environment" where
  "makedirs_denied =
     \<lparr>unicode_lower = (\<lambda>s. s), listdir_error = None,
      makedirs_error = (\<lambda>n. if n = ''Images'' then Some FileExistsError else None),
      move_error = (\<lambda>n. None), print_error = (\<lambda>l. None)\<rparr>"

text \<open>
  A watched directory in which the name of a category folder is taken by a file, and a
  table that lists \<open>.png\<close> under two categories.
\<close>

definition example_blocked :: "nat state" where
  "example_blocked = \<lparr>files = [(''Images'', File 0), (''a.png'', File 1)], stdout = []\<rparr>"

definition two_categories :: "(string \<times> string list) list" where
  "two_categories = [(''Images'', [''.png'']), (''Pictures'', [''.png'', ''.jpg''])]"

lemmas eval_defs =
  sort_files_def os_listdir_def no_faults_def sort_loop.simps os_path_isdir_def
  startswith_dot_def move_file_def splitext_def rfind_def lower_def str_lower_def
  is_ascii_def lower_char_def EXTENSION_MAP_def move_file_into_def except_handler_def
  print_line_def os_path_exists_def os_makedirs_def get_unique_path_def
  get_unique_loop.simps exists_in_def shutil_move_def leave_copy_def unique_filename_def
  str_nat.simps digit_char_def

section \<open>Decimal numerals and candidate names\<close>

lemma of_char_digit: "d < 10 \<Longrightarrow> (of_char (digit_char d) :: nat) = 48 + d"
proof -
  assume "d < 10"
  then have "d \<in> {0, 1, 2, 3, 4, 5, 6, 7, 8, 9}" by auto
  then show ?thesis by (auto simp: digit_char_def)
qed

lemma nat_of_digits_snoc:
  "nat_of_digits acc (xs @ [c]) = 10 * nat_of_digits acc xs + (of_char c - 48)"
  by (induction xs arbitrary: acc) auto

lemma nat_of_digits_str_nat: "nat_of_digits 0 (str_nat n) = n"
proof (induction n rule: str_nat.induct)
  case (1 n)
  show ?case
  proof (cases "n < 10")
    case True
    then show ?thesis by (simp add: str_nat.simps [of n] of_char_digit)
  next
    case False
    with 1 have "nat_of_digits 0 (str_nat (n div 10)) = n div 10" by simp
    with False show ?thesis
      by (simp add: str_nat.simps [of n] nat_of_digits_snoc of_char_digit)
  qed
qed

lemma str_nat_inj: "str_nat m = str_nat n \<Longrightarrow> m = n"
  by (metis nat_of_digits_str_nat)

lemma unique_filename_inj: "unique_filename b j e = unique_filename b k e \<Longrightarrow> j = k"
  by (auto simp: unique_filename_def dest: str_nat_inj)

lemma splitext_append: "fst (splitext p) @ snd (splitext p) = p"
  by (simp add: splitext_def Let_def)

lemma candidate_length: "0 < k \<Longrightarrow> length filename < length (candidate filename k)"
proof -
  assume "0 < k"
  have "length (fst (splitext filename)) + length (snd (splitext filename)) = length filename"
    by (metis length_append splitext_append)
  with \<open>0 < k\<close> show ?thesis
    by (simp add: candidate_def unique_filename_def)
qed

lemma candidate_inj: "candidate f j = candidate f k \<Longrightarrow> j = k"
proof (cases "j = 0 \<or> k = 0")
  case True
  assume eq: "candidate f j = candidate f k"
  show ?thesis
  proof (rule ccontr)
    assume "j \<noteq> k"
    with True have "(j = 0 \<and> 0 < k) \<or> (k = 0 \<and> 0 < j)" by auto
    then show False
      using eq candidate_length [of k f] candidate_length [of j f]
      by (auto simp: candidate_def)
  qed
next
  case False
  assume "candidate f j = candidate f k"
  with False show ?thesis
    by (auto simp: candidate_def dest: unique_filename_inj)
qed

section \<open>The probe loop\<close>

lemma get_unique_loop_first_free:
  assumes "\<not> ex (candidate f k)"
    and "\<forall>j. c \<le> j \<and> j < k \<longrightarrow> ex (candidate f j)"
    and "c \<le> k"
  shows "get_unique_loop ex (fst (splitext f)) (snd (splitext f)) (Suc c) (candidate f c)
           = Some (candidate f k)"
  using assms
proof (induction "k - c" arbitrary: c)
  case 0
  then have "c = k" by simp
  with 0 show ?case by (simp add: get_unique_loop.simps)
next
  case (Suc d)
  then have "c < k" by simp
  with Suc.prems have "ex (candidate f c)" by simp
  moreover have "unique_filename (fst (splitext f)) (Suc c) (snd (splitext f))
      = candidate f (Suc c)"
    by (simp add: candidate_def)
  moreover have "get_unique_loop ex (fst (splitext f)) (snd (splitext f)) (Suc (Suc c))
      (candidate f (Suc c)) = Some (candidate f k)"
    using Suc.hyps Suc.prems \<open>c < k\<close> by (intro Suc.hyps(1)) auto
  ultimately show ?case
    by (subst get_unique_loop.simps) simp
qed

lemma get_unique_path_first_free:
  assumes "\<not> ex (candidate f k)" and "\<forall>j<k. ex (candidate f j)"
  shows "get_unique_path ex f = Some (candidate f k)"
proof -
  have "candidate f 0 = f" by (simp add: candidate_def)
  with get_unique_loop_first_free [of ex f k 0] assms show ?thesis
    by (simp add: get_unique_path_def case_prod_beta)
qed

lemma get_unique_loop_Some:
  "get_unique_loop ex b e c n = Some p \<Longrightarrow>
     \<not> ex p \<and> (p = n \<or> (ex n \<and> (\<exists>k\<ge>c. p = unique_filename b k e \<and>
        (\<forall>j. c \<le> j \<and> j < k \<longrightarrow> ex (unique_filename b j e)))))"
proof (induction rule: get_unique_loop.raw_induct [rotated 1, consumes 1])
  case (1 loop ex b e c n p)
  show ?case
  proof (cases "ex n")
    case False
    with 1(2) show ?thesis by simp
  next
    case True
    with 1(2) have "loop ex b e (c + 1) (unique_filename b c e) = Some p" by simp
    from 1(1) [OF this] have np: "\<not> ex p"
      and alt: "p = unique_filename b c e \<or> (ex (unique_filename b c e) \<and>
         (\<exists>k\<ge>c + 1. p = unique_filename b k e \<and>
            (\<forall>j. c + 1 \<le> j \<and> j < k \<longrightarrow> ex (unique_filename b j e))))"
      by auto
    from alt have "\<exists>k\<ge>c. p = unique_filename b k e \<and>
        (\<forall>j. c \<le> j \<and> j < k \<longrightarrow> ex (unique_filename b j e))"
    proof
      assume "p = unique_filename b c e"
      then show ?thesis by (intro exI [of _ c]) auto
    next
      assume "ex (unique_filename b c e) \<and>
         (\<exists>k\<ge>c + 1. p = unique_filename b k e \<and>
            (\<forall>j. c + 1 \<le> j \<and> j < k \<longrightarrow> ex (unique_filename b j e)))"
      then obtain k where k: "c + 1 \<le> k" "p = unique_filename b k e"
        "\<forall>j. c + 1 \<le> j \<and> j < k \<longrightarrow> ex (unique_filename b j e)"
        and exc: "ex (unique_filename b c e)" by auto
      have "\<forall>j. c \<le> j \<and> j < k \<longrightarrow> ex (unique_filename b j e)"
      proof (intro allI impI)
        fix j assume "c \<le> j \<and> j < k"
        then have "j = c \<or> (c + 1 \<le> j \<and> j < k)" by auto
        with exc k(3) show "ex (unique_filename b j e)" by auto
      qed
      with k show ?thesis by (intro exI [of _ k]) auto
    qed
    with np True show ?thesis by simp
  qed
qed


lemma exists_free_candidate:
  assumes "finite {n. ex n}"
  shows "\<exists>k. \<not> ex (candidate f k)"
proof (rule ccontr)
  assume "\<not> (\<exists>k. \<not> ex (candidate f k))"
  then have "range (candidate f) \<subseteq> {n. ex n}" by auto
  with assms have "finite (range (candidate f))" by (rule rev_finite_subset)
  moreover have "inj (candidate f)" by (auto simp: inj_on_def dest: candidate_inj)
  ultimately show False using finite_imageD by blast
qed

lemma get_unique_path_finite:
  assumes "finite {n. ex n}"
  shows "\<exists>k. get_unique_path ex f = Some (candidate f k) \<and> \<not> ex (candidate f k)
           \<and> (\<forall>j<k. ex (candidate f j))"
proof -
  from exists_free_candidate [OF assms] obtain k0 where "\<not> ex (candidate f k0)" ..
  define k where "k = (LEAST k. \<not> ex (candidate f k))"
  have free: "\<not> ex (candidate f k)"
    unfolding k_def using \<open>\<not> ex (candidate f k0)\<close> by (rule LeastI)
  have "\<forall>j<k. ex (candidate f j)"
    unfolding k_def using not_less_Least by blast
  with free show ?thesis
    using get_unique_path_first_free by blast
qed

lemma get_unique_loop_all_exist: "get_unique_loop (\<lambda>n. True) b e c n = None"
proof -
  have "get_unique_loop ex b e c n = Some p \<Longrightarrow> \<not> ex p" for ex p
    using get_unique_loop_Some by blast
  then show ?thesis by (cases "get_unique_loop (\<lambda>n. True) b e c n") auto
qed

lemma rfind_append_last:
  "c \<notin> set ys \<Longrightarrow> rfind (xs @ c # ys) c = int (length xs)"
  by (simp add: rfind_def takeWhile_append)

lemma rfind_absent: "c \<notin> set p \<Longrightarrow> rfind p c = - 1"
  by (simp add: rfind_def)

lemma splitext_simple:
  assumes "CHR ''.'' \<notin> set ext" and "CHR ''/'' \<notin> set (base @ ext)"
    and "\<exists>c\<in>set base. c \<noteq> CHR ''.''"
  shows "splitext (base @ ''.'' @ ext) = (base, ''.'' @ ext)"
  using assms by (simp add: splitext_def rfind_append_last rfind_absent list_ex_iff)

text \<open>
  For a name that is not hidden and has no separator, the extension is the text from
  the final dot on.
\<close>

lemma splitext_visible:
  assumes "\<not> startswith_dot (base @ ''.'' @ ext)" and "CHR ''.'' \<notin> set ext"
    and "CHR ''/'' \<notin> set (base @ ext)"
  shows "splitext (base @ ''.'' @ ext) = (base, ''.'' @ ext)"
proof (rule splitext_simple [OF assms(2,3)])
  from assms(1) obtain c cs where "base = c # cs" "c \<noteq> CHR ''.''"
    by (cases base) (auto simp: startswith_dot_def)
  then show "\<exists>c\<in>set base. c \<noteq> CHR ''.''" by auto
qed

section \<open>Collision resolution: the order of the probes and termination\<close>



text \<open>
  Claim C10. When only finitely many names exist in the target directory, the probe
  loop ends. The names it probes are pairwise distinct, so one of them does not exist;
  \<^verbatim>\<open>get_unique_path\<close> returns the name \<open>candidate filename k\<close> of the first counter
  value \<open>k\<close> for which it does not exist (the file name itself for \<open>k = 0\<close>,
  \<open>base(k).ext\<close> after that).
\<close>

theorem get_unique_path_terminates:
  "finite {n. ex n} \<Longrightarrow>
     (\<forall>i j. candidate filename i = candidate filename j \<longrightarrow> i = j)
     \<and> (\<exists>k. get_unique_path ex filename = Some (candidate filename k)
            \<and> \<not> ex (candidate filename k)
            \<and> (\<forall>j<k. ex (candidate filename j))
            \<and> (0 < k \<longrightarrow> candidate filename k
                  = fst (splitext filename) @ ''('' @ str_nat k @ '')'' @ snd (splitext filename)))"
proof -
  assume "finite {n. ex n}"
  from get_unique_path_finite [OF this, of filename]
  obtain k where "get_unique_path ex filename = Some (candidate filename k)"
    "\<not> ex (candidate filename k)" "\<forall>j<k. ex (candidate filename j)" by blast
  moreover have "0 < k \<longrightarrow> candidate filename k
      = fst (splitext filename) @ ''('' @ str_nat k @ '')'' @ snd (splitext filename)"
    by (simp add: candidate_def unique_filename_def)
  moreover have "\<forall>i j. candidate filename i = candidate filename j \<longrightarrow> i = j"
    using candidate_inj by blast
  ultimately show ?thesis by blast
qed

theorem get_unique_path_terminates_witness:
  "finite {n. n \<in> set [''report.pdf'', ''report(1).pdf'']}
   \<and> get_unique_path (\<lambda>n. n \<in> set [''report.pdf'', ''report(1).pdf'']) ''report.pdf''
       = Some ''report(2).pdf''
   \<and> candidate ''report.pdf'' 2 = ''report(2).pdf''
   \<and> \<not> ''report(2).pdf'' \<in> set [''report.pdf'', ''report(1).pdf'']"
proof -
  let ?ex = "\<lambda>n. n \<in> set [''report.pdf'', ''report(1).pdf'']"
  have fin: "finite {n. ?ex n}" by simp
  have c: "candidate ''report.pdf'' 0 = ''report.pdf''"
    "candidate ''report.pdf'' (Suc 0) = ''report(1).pdf''"
    "candidate ''report.pdf'' 2 = ''report(2).pdf''"
    by (simp_all add: candidate_def splitext_def rfind_def unique_filename_def str_nat.simps
        digit_char_def)
  from get_unique_path_terminates [OF fin, of "''report.pdf''"]
  obtain k where k: "get_unique_path ?ex ''report.pdf'' = Some (candidate ''report.pdf'' k)"
    "\<not> ?ex (candidate ''report.pdf'' k)" "\<forall>j<k. ?ex (candidate ''report.pdf'' j)"
    and inj: "\<forall>i j. candidate ''report.pdf'' i = candidate ''report.pdf'' j \<longrightarrow> i = j"
    by blast
  have "\<not> ?ex (candidate ''report.pdf'' 2)" by (simp add: c)
  with k(3) have "\<not> 2 < k" by blast
  moreover have "k \<noteq> 0" using k(2) c(1) by (cases "k = 0") auto
  moreover have "k \<noteq> Suc 0" using k(2) c(2) by (cases "k = Suc 0") auto
  ultimately have "k = 2" by arith
  with k(1) c(3) fin show ?thesis by simp
qed

section \<open>Classification\<close>

lemma Classify_spec_Nil [simp]: "Classify_spec [] x = None"
  by (simp add: Classify_spec_def)

lemma Classify_spec_Cons [simp]:
  "Classify_spec ((t, exts) # rules) x = (if x \<in> set exts then Some t else Classify_spec rules x)"
  by (simp add: Classify_spec_def)


lemma Classify_spec_first:
  "x \<in> set exts \<Longrightarrow> \<forall>p \<in> set pre. x \<notin> set (snd p) \<Longrightarrow>
     Classify_spec (pre @ (t, exts) # post) x = Some t"
  by (induction pre) auto

lemma Classify_spec_SomeD:
  "Classify_spec rules x = Some t \<Longrightarrow> \<exists>exts. (t, exts) \<in> set rules \<and> x \<in> set exts"
  by (induction rules) (auto split: if_splits)

lemma Classify_spec_distinct:
  "distinct (concat (map snd rules)) \<Longrightarrow> (t, exts) \<in> set rules \<Longrightarrow> x \<in> set exts \<Longrightarrow>
     Classify_spec rules x = Some t"
proof (induction rules)
  case Nil
  then show ?case by simp
next
  case (Cons r rules)
  obtain t' exts' where r: "r = (t', exts')" by (cases r)
  show ?case
  proof (cases "(t, exts) = (t', exts')")
    case True
    with Cons.prems r show ?thesis by simp
  next
    case False
    with Cons.prems r have mem: "(t, exts) \<in> set rules" by auto
    with Cons.prems(3) have "x \<in> set (concat (map snd rules))" by force
    with Cons.prems(1) r have "x \<notin> set exts'" by auto
    moreover from Cons.prems(1) have "distinct (concat (map snd rules))" by simp
    ultimately show ?thesis using Cons.IH mem Cons.prems(3) r by simp
  qed
qed

lemma EXTENSION_MAP_distinct: "distinct (concat (map snd EXTENSION_MAP))"
  by (simp add: EXTENSION_MAP_def)

lemma EXTENSION_MAP_unique:
  "(t, exts) \<in> set EXTENSION_MAP \<Longrightarrow> x \<in> set exts \<Longrightarrow> Classify_spec EXTENSION_MAP x = Some t"
  using Classify_spec_distinct [OF EXTENSION_MAP_distinct] .

lemma lower_Nil [simp]: "lower env [] = []"
  by (simp add: lower_def str_lower_def)

lemma category_names:
  "(t, exts) \<in> set EXTENSION_MAP \<Longrightarrow>
     t \<in> {''Images'', ''Documents'', ''Archives'', ''Video'', ''Audio'', ''Executables''}"
  unfolding EXTENSION_MAP_def by auto

lemma category_of_names:
  "category_of env ''Images'' = None" "category_of env ''Documents'' = None"
  "category_of env ''Archives'' = None" "category_of env ''Video'' = None"
  "category_of env ''Audio'' = None" "category_of env ''Executables'' = None"
  by (simp_all add: category_of_def splitext_def rfind_def EXTENSION_MAP_def)

lemma category_of_category_name:
  "(t, exts) \<in> set EXTENSION_MAP \<Longrightarrow> category_of env t = None"
  using category_names [of t exts] category_of_names [of env] by auto



lemma category_of_Some_iff:
  "(category_of env m = Some t) =
     (\<exists>exts. (t, exts) \<in> set EXTENSION_MAP \<and> lower env (snd (splitext m)) \<in> set exts)"
  unfolding category_of_def using Classify_spec_SomeD EXTENSION_MAP_unique by blast

lemma category_of_SomeD:
  assumes "category_of env n = Some t"
  shows "\<exists>exts. (t, exts) \<in> set EXTENSION_MAP \<and> lower env (snd (splitext n)) \<in> set exts"
    and "category_of env t = None" and "n \<noteq> t"
proof -
  from assms show 1: "\<exists>exts. (t, exts) \<in> set EXTENSION_MAP
      \<and> lower env (snd (splitext n)) \<in> set exts"
    unfolding category_of_def by (rule Classify_spec_SomeD)
  then show 2: "category_of env t = None" by (auto dest: category_of_category_name)
  with assms show "n \<noteq> t" by auto
qed


lemma move_file_loop_Classify:
  "move_file_loop env rules st filename x =
     (case Classify_spec rules x of
        None \<Rightarrow> Returns st
      | Some t \<Rightarrow> move_file_into env st t filename)"
  by (induction rules) auto

lemma move_file_Classify:
  "move_file rules env st filename =
     (case Classify_spec rules (lower env (snd (splitext filename))) of
        None \<Rightarrow> Returns st
      | Some t \<Rightarrow> move_file_into env st t filename)"
  by (simp add: move_file_def move_file_loop_Classify)

lemma move_file_category:
  "move_file EXTENSION_MAP env st filename =
     (case category_of env filename of
        None \<Rightarrow> Returns st
      | Some t \<Rightarrow> move_file_into env st t filename)"
  by (simp add: move_file_Classify category_of_def)

section \<open>One file: the effect of move_file\<close>

lemma finite_exists_in: "finite {n. exists_in d t n}"
proof (cases "map_of d t")
  case None
  then show ?thesis by (simp add: exists_in_def)
next
  case (Some nd)
  show ?thesis
  proof (cases nd)
    case (File c)
    with Some show ?thesis by (simp add: exists_in_def)
  next
    case (Dir es)
    with Some have "{n. exists_in d t n} = dom (map_of es)"
      by (auto simp: exists_in_def)
    then show ?thesis by (simp add: finite_dom_map_of)
  qed
qed

lemma get_unique_path_dir:
  "\<exists>k. get_unique_path (exists_in d t) f = Some (candidate f k)
       \<and> \<not> exists_in d t (candidate f k) \<and> (\<forall>j<k. exists_in d t (candidate f j))"
  using get_unique_path_finite [OF finite_exists_in] .

lemma map_of_ensure_dir:
  "map_of (ensure_dir d t) m = (if map_of d t = None \<and> m = t then Some (Dir []) else map_of d m)"
  by (auto simp: ensure_dir_def map_add_def split: option.splits)

lemma ensure_dir_present: "map_of d t \<noteq> None \<Longrightarrow> ensure_dir d t = d"
  by (simp add: ensure_dir_def)

lemma ensure_dir_not_None: "map_of (ensure_dir d t) t \<noteq> None"
  by (simp add: map_of_ensure_dir)

lemma makedirs_cases:
  "(if \<not> os_path_exists d t then os_makedirs env d t else Inr d) =
     (if map_of d t = None
      then (case makedirs_error env t of Some e \<Rightarrow> Inl e | None \<Rightarrow> Inr (ensure_dir d t))
      else Inr (ensure_dir d t))"
  by (auto simp: os_path_exists_def os_makedirs_def ensure_dir_def split: option.splits)

lemma update_fresh: "map_of es p = None \<Longrightarrow> AList.update p x es = es @ [(p, x)]"
  by (induction es) (auto split: if_splits)

lemma shutil_move_Inr:
  "shutil_move env d f t p = Inr d2 \<longleftrightarrow>
     move_error env f = None \<and> f \<noteq> t \<and>
     (\<exists>n es. map_of d f = Some n \<and> map_of d t = Some (Dir es) \<and>
        d2 = AList.delete f (AList.update t (Dir (AList.update p n es)) d))"
  by (auto simp: shutil_move_def split: option.splits node.splits prod.splits)

lemma shutil_move_Inl:
  "shutil_move env d f t p = Inl (e, d') \<longleftrightarrow>
     (case move_error env f of
        Some (e0, left) \<Rightarrow> e = e0 \<and> d' = leave_copy d f t p left
      | None \<Rightarrow>
         d' = d \<and>
         (case map_of d f of
            None \<Rightarrow> e = FileNotFoundError
          | Some n \<Rightarrow>
             (case map_of d t of
                None \<Rightarrow> e = FileNotFoundError
              | Some (File c) \<Rightarrow> e = NotADirectoryError
              | Some (Dir es) \<Rightarrow> f = t \<and> e = ShutilError)))"
  by (auto simp: shutil_move_def split: option.splits node.splits prod.splits)

lemma leave_copy_cases:
  "leave_copy d f t p left = d
   \<or> (\<exists>copy es. map_of d t = Some (Dir es) \<and> f \<noteq> t
        \<and> leave_copy d f t p left = AList.update t (Dir (AList.update p copy es)) d)"
  by (auto simp: leave_copy_def split: option.splits node.splits)

text \<open>What a failed move and a successful move do to the entries of the watched directory.\<close>

lemma failed_map_of:
  assumes "shutil_move env d f t p = Inl (e, d')" and "\<not> exists_in d t p"
  shows "\<forall>m. m \<noteq> t \<longrightarrow> map_of d' m = map_of d m"
    and "map_of d' t = map_of d t
      \<or> (\<exists>es copy. map_of d t = Some (Dir es) \<and> map_of es p = None
            \<and> map_of d' t = Some (Dir (es @ [(p, copy)])))"
proof -
  from assms(1) have "d' = d \<or> (\<exists>left. d' = leave_copy d f t p left)"
    by (auto simp: shutil_move_Inl split: option.splits prod.splits)
  then have alt: "d' = d \<or> (\<exists>copy es. map_of d t = Some (Dir es) \<and> f \<noteq> t
        \<and> d' = AList.update t (Dir (AList.update p copy es)) d)"
    using leave_copy_cases [of d f t p] by metis
  then show "\<forall>m. m \<noteq> t \<longrightarrow> map_of d' m = map_of d m"
    by (auto simp: AList.update_conv')
  from alt show "map_of d' t = map_of d t
      \<or> (\<exists>es copy. map_of d t = Some (Dir es) \<and> map_of es p = None
            \<and> map_of d' t = Some (Dir (es @ [(p, copy)])))"
  proof
    assume "d' = d"
    then show ?thesis by simp
  next
    assume "\<exists>copy es. map_of d t = Some (Dir es) \<and> f \<noteq> t
        \<and> d' = AList.update t (Dir (AList.update p copy es)) d"
    then obtain copy es where c: "map_of d t = Some (Dir es)"
      "d' = AList.update t (Dir (AList.update p copy es)) d" by blast
    with assms(2) have fresh: "map_of es p = None" by (simp add: exists_in_def)
    with c show ?thesis by (auto simp: AList.update_conv' update_fresh)
  qed
qed

lemma moved_map_of:
  assumes "shutil_move env (ensure_dir d t) n t p = Inr d2"
    and "\<not> os_path_isdir d n" and "\<not> exists_in (ensure_dir d t) t p"
  shows "\<exists>c es. map_of d n = Some (File c) \<and> n \<noteq> t \<and> move_error env n = None
      \<and> map_of (ensure_dir d t) t = Some (Dir es) \<and> map_of es p = None
      \<and> map_of d2 = ((map_of (ensure_dir d t))(t \<mapsto> Dir (es @ [(p, File c)])))(n := None)"
proof -
  from assms(1) obtain nd es where mv: "move_error env n = None" "n \<noteq> t"
    "map_of (ensure_dir d t) n = Some nd" "map_of (ensure_dir d t) t = Some (Dir es)"
    "d2 = AList.delete n (AList.update t (Dir (AList.update p nd es)) (ensure_dir d t))"
    unfolding shutil_move_Inr by blast
  from mv(2,3) have "map_of d n = Some nd" by (simp add: map_of_ensure_dir split: if_splits)
  with assms(2) obtain c where c: "nd = File c"
    by (cases nd) (auto simp: os_path_isdir_def)
  from assms(3) mv(4) have fresh: "map_of es p = None" by (simp add: exists_in_def)
  show ?thesis
    using mv c fresh update_fresh [OF fresh, of "File c"] \<open>map_of d n = Some nd\<close>
    by (auto simp: AList.update_conv' AList.delete_conv' fun_eq_iff map_add_def)
qed

lemma except_handler_cases [consumes 0, case_names printed unprintable]:
  obtains "print_error env (MoveFailed f e) = None"
      "except_handler env s f e = Returns (s\<lparr>stdout := stdout s @ [MoveFailed f e]\<rparr>)"
  | e' where "print_error env (MoveFailed f e) = Some e'"
      "except_handler env s f e = Raises e' s"
  by (cases "print_error env (MoveFailed f e)")
     (auto simp: except_handler_def print_line_def)

lemma move_file_into_cases [consumes 0, case_names raised failed moved]:
  fixes st :: "'c state"
  obtains e where "map_of (files st) t = None" "makedirs_error env t = Some e"
      "move_file_into env st t f = Raises e st"
  | e k d' where "map_of (files st) t = None \<longrightarrow> makedirs_error env t = None"
      "shutil_move env (ensure_dir (files st) t) f t (candidate f k) = Inl (e, d')"
      "\<not> exists_in (ensure_dir (files st) t) t (candidate f k)"
      "move_file_into env st t f = except_handler env \<lparr>files = d', stdout = stdout st\<rparr> f e"
  | k d2 where "map_of (files st) t = None \<longrightarrow> makedirs_error env t = None"
      "shutil_move env (ensure_dir (files st) t) f t (candidate f k) = Inr d2"
      "\<not> exists_in (ensure_dir (files st) t) t (candidate f k)"
      "\<forall>j<k. exists_in (ensure_dir (files st) t) t (candidate f j)"
      "move_file_into env st t f
         = Returns \<lparr>files = d2, stdout = stdout st @ [Moved f (candidate f k)]\<rparr>
       \<or> (\<exists>e. print_error env (Moved f (candidate f k)) = Some e
            \<and> move_file_into env st t f
                = except_handler env \<lparr>files = d2, stdout = stdout st\<rparr> f e)"
proof -
  let ?d = "files st"
  show thesis
  proof (cases "map_of ?d t = None \<and> makedirs_error env t \<noteq> None")
    case True
    then obtain e where e: "makedirs_error env t = Some e" by auto
    with True have "move_file_into env st t f = Raises e st"
      by (simp add: move_file_into_def makedirs_cases)
    with True e show thesis by (intro that(1)) auto
  next
    case False
    then have ok: "map_of ?d t = None \<longrightarrow> makedirs_error env t = None" by auto
    then have prep: "(if \<not> os_path_exists ?d t then os_makedirs env ?d t else Inr ?d)
        = Inr (ensure_dir ?d t)"
      by (auto simp: makedirs_cases)
    from get_unique_path_dir [of "ensure_dir ?d t" t f]
    obtain k where k: "get_unique_path (exists_in (ensure_dir ?d t) t) f = Some (candidate f k)"
      "\<not> exists_in (ensure_dir ?d t) t (candidate f k)"
      "\<forall>j<k. exists_in (ensure_dir ?d t) t (candidate f j)" by blast
    show thesis
    proof (cases "shutil_move env (ensure_dir ?d t) f t (candidate f k)")
      case (Inl ed)
      obtain e d' where ed: "ed = (e, d')" by (cases ed)
      with Inl prep k have "move_file_into env st t f
          = except_handler env \<lparr>files = d', stdout = stdout st\<rparr> f e"
        by (simp add: move_file_into_def)
      with ok Inl ed k(2) show thesis by (intro that(2)) auto
    next
      case (Inr d2)
      with prep k have "move_file_into env st t f
         = Returns \<lparr>files = d2, stdout = stdout st @ [Moved f (candidate f k)]\<rparr>
       \<or> (\<exists>e. print_error env (Moved f (candidate f k)) = Some e
            \<and> move_file_into env st t f
                = except_handler env \<lparr>files = d2, stdout = stdout st\<rparr> f e)"
        by (cases "print_error env (Moved f (candidate f k))")
           (simp_all add: move_file_into_def print_line_def)
      with ok Inr k show thesis by (intro that(3))
    qed
  qed
qed

lemma except_handler_not_Diverges: "except_handler env s f e \<noteq> Diverges"
  by (rule except_handler_cases [where env = env and s = s and f = f and e = e]) auto

lemma move_file_into_not_Diverges: "move_file_into env st t f \<noteq> Diverges"
  by (rule move_file_into_cases [where st = st and t = t and env = env and f = f])
     (auto simp: except_handler_not_Diverges)

lemma sort_loop_single:
  "sort_loop rules env [n] st =
     (if os_path_isdir (files st) n \<or> startswith_dot n then Returns st
      else move_file rules env st n)"
  by (simp split: outcome.splits)

lemma sort_loop_Cons:
  "sort_loop rules env (n # ns) st =
     (case sort_loop rules env [n] st of
        Returns st' \<Rightarrow> sort_loop rules env ns st'
      | Raises e st' \<Rightarrow> Raises e st'
      | Diverges \<Rightarrow> Diverges)"
  by (simp split: outcome.splits)

declare sort_loop.simps(2) [simp del]

lemma sort_loop_step_Returns:
  "sort_loop rules env [n] st = Returns st1 \<Longrightarrow>
     sort_loop rules env (n # ns) st = sort_loop rules env ns st1"
  by (subst sort_loop_Cons) simp

lemma sort_loop_step_Raises:
  "sort_loop rules env [n] st = Raises e st1 \<Longrightarrow> sort_loop rules env (n # ns) st = Raises e st1"
  by (subst sort_loop_Cons) simp

lemma except_handler_state:
  assumes "state_of (except_handler env \<lparr>files = d, stdout = out\<rparr> f e) = Some st'"
  shows "files st' = d
    \<and> ((except_handler env \<lparr>files = d, stdout = out\<rparr> f e = Returns st'
          \<and> stdout st' = out @ [MoveFailed f e] \<and> print_error env (MoveFailed f e) = None)
       \<or> (\<exists>e'. except_handler env \<lparr>files = d, stdout = out\<rparr> f e = Raises e' st'
          \<and> stdout st' = out \<and> print_error env (MoveFailed f e) = Some e'))"
  by (rule except_handler_cases
        [where env = env and s = "\<lparr>files = d, stdout = out\<rparr>" and f = f and e = e])
     (use assms in auto)

text \<open>
  One step of the loop of \<^verbatim>\<open>sort_files\<close>, by what it does to the directory: nothing,
  nothing because \<^verbatim>\<open>os.makedirs\<close> raised, a failed move, a move.
\<close>

lemma sort_step_cases [consumes 1, case_names skipped raised failed moved]:
  fixes st :: "'c state"
  assumes "state_of (sort_loop EXTENSION_MAP env [n] st) = Some st'"
  obtains "os_path_isdir (files st) n \<or> startswith_dot n \<or> category_of env n = None"
      "st' = st" "sort_loop EXTENSION_MAP env [n] st = Returns st"
  | t e where "\<not> os_path_isdir (files st) n" "\<not> startswith_dot n"
      "category_of env n = Some t"
      "map_of (files st) t = None" "makedirs_error env t = Some e"
      "st' = st" "sort_loop EXTENSION_MAP env [n] st = Raises e st"
  | t e k where "\<not> os_path_isdir (files st) n" "\<not> startswith_dot n"
      "category_of env n = Some t"
      "map_of (files st) t = None \<longrightarrow> makedirs_error env t = None"
      "shutil_move env (ensure_dir (files st) t) n t (candidate n k) = Inl (e, files st')"
      "\<not> exists_in (ensure_dir (files st) t) t (candidate n k)"
      "(sort_loop EXTENSION_MAP env [n] st = Returns st'
          \<and> stdout st' = stdout st @ [MoveFailed n e] \<and> print_error env (MoveFailed n e) = None)
       \<or> (\<exists>e'. sort_loop EXTENSION_MAP env [n] st = Raises e' st'
          \<and> stdout st' = stdout st \<and> print_error env (MoveFailed n e) = Some e')"
  | t k where "\<not> os_path_isdir (files st) n" "\<not> startswith_dot n"
      "category_of env n = Some t"
      "map_of (files st) t = None \<longrightarrow> makedirs_error env t = None"
      "shutil_move env (ensure_dir (files st) t) n t (candidate n k) = Inr (files st')"
      "\<not> exists_in (ensure_dir (files st) t) t (candidate n k)"
      "\<forall>j<k. exists_in (ensure_dir (files st) t) t (candidate n j)"
      "(sort_loop EXTENSION_MAP env [n] st = Returns st'
          \<and> stdout st' = stdout st @ [Moved n (candidate n k)])
       \<or> (\<exists>e. print_error env (Moved n (candidate n k)) = Some e
          \<and> ((sort_loop EXTENSION_MAP env [n] st = Returns st'
                \<and> stdout st' = stdout st @ [MoveFailed n e])
             \<or> (\<exists>e'. sort_loop EXTENSION_MAP env [n] st = Raises e' st'
                \<and> stdout st' = stdout st \<and> print_error env (MoveFailed n e) = Some e')))"
proof (cases "os_path_isdir (files st) n \<or> startswith_dot n \<or> category_of env n = None")
  case True
  then have "sort_loop EXTENSION_MAP env [n] st = Returns st"
    by (auto simp: sort_loop_single move_file_category)
  with True assms show thesis by (intro that(1)) auto
next
  case False
  then obtain t where t: "\<not> os_path_isdir (files st) n" "\<not> startswith_dot n"
    "category_of env n = Some t" by auto
  then have step: "sort_loop EXTENSION_MAP env [n] st = move_file_into env st t n"
    by (simp add: sort_loop_single move_file_category)
  show thesis
  proof (rule move_file_into_cases [where st = st and t = t and env = env and f = n])
    fix e assume "map_of (files st) t = None" "makedirs_error env t = Some e"
      "move_file_into env st t n = Raises e st"
    with t step assms show thesis by (intro that(2)) auto
  next
    fix e k d'
    assume a: "map_of (files st) t = None \<longrightarrow> makedirs_error env t = None"
      "shutil_move env (ensure_dir (files st) t) n t (candidate n k) = Inl (e, d')"
      "\<not> exists_in (ensure_dir (files st) t) t (candidate n k)"
      "move_file_into env st t n = except_handler env \<lparr>files = d', stdout = stdout st\<rparr> n e"
    with step assms
    have "state_of (except_handler env \<lparr>files = d', stdout = stdout st\<rparr> n e) = Some st'" by simp
    from except_handler_state [OF this] a(4) step
    have "files st' = d'"
      "(sort_loop EXTENSION_MAP env [n] st = Returns st'
          \<and> stdout st' = stdout st @ [MoveFailed n e] \<and> print_error env (MoveFailed n e) = None)
       \<or> (\<exists>e'. sort_loop EXTENSION_MAP env [n] st = Raises e' st'
          \<and> stdout st' = stdout st \<and> print_error env (MoveFailed n e) = Some e')"
      by auto
    with t a show thesis by (intro that(3)) auto
  next
    fix k d2
    assume a: "map_of (files st) t = None \<longrightarrow> makedirs_error env t = None"
      "shutil_move env (ensure_dir (files st) t) n t (candidate n k) = Inr d2"
      "\<not> exists_in (ensure_dir (files st) t) t (candidate n k)"
      "\<forall>j<k. exists_in (ensure_dir (files st) t) t (candidate n j)"
      "move_file_into env st t n
         = Returns \<lparr>files = d2, stdout = stdout st @ [Moved n (candidate n k)]\<rparr>
       \<or> (\<exists>e. print_error env (Moved n (candidate n k)) = Some e
            \<and> move_file_into env st t n
                = except_handler env \<lparr>files = d2, stdout = stdout st\<rparr> n e)"
    have "files st' = d2
      \<and> ((sort_loop EXTENSION_MAP env [n] st = Returns st'
          \<and> stdout st' = stdout st @ [Moved n (candidate n k)])
       \<or> (\<exists>e. print_error env (Moved n (candidate n k)) = Some e
          \<and> ((sort_loop EXTENSION_MAP env [n] st = Returns st'
                \<and> stdout st' = stdout st @ [MoveFailed n e])
             \<or> (\<exists>e'. sort_loop EXTENSION_MAP env [n] st = Raises e' st'
                \<and> stdout st' = stdout st \<and> print_error env (MoveFailed n e) = Some e'))))"
      using a(5)
    proof
      assume "move_file_into env st t n
         = Returns \<lparr>files = d2, stdout = stdout st @ [Moved n (candidate n k)]\<rparr>"
      with step assms show ?thesis by auto
    next
      assume "\<exists>e. print_error env (Moved n (candidate n k)) = Some e
            \<and> move_file_into env st t n
                = except_handler env \<lparr>files = d2, stdout = stdout st\<rparr> n e"
      then obtain e where e: "print_error env (Moved n (candidate n k)) = Some e"
        "move_file_into env st t n = except_handler env \<lparr>files = d2, stdout = stdout st\<rparr> n e"
        by blast
      with step assms
      have "state_of (except_handler env \<lparr>files = d2, stdout = stdout st\<rparr> n e) = Some st'"
        by simp
      from except_handler_state [OF this] e step show ?thesis by auto
    qed
    with t a show thesis by (intro that(4)) auto
  qed
qed

section \<open>What a run keeps\<close>

lemma keeps_refl [simp]: "keeps es es"
  by (simp add: keeps_def)

lemma keeps_trans: "keeps a b \<Longrightarrow> keeps b c \<Longrightarrow> keeps a c"
  by (simp add: keeps_def)

lemma keeps_append: "map_of es p = None \<Longrightarrow> keeps es (es @ [(p, x)])"
  by (auto simp: keeps_def map_add_def)

lemma step_file_kept:
  assumes "state_of (sort_loop EXTENSION_MAP env [n] st) = Some st'"
    and "map_of (files st) m = Some (File c)"
    and "m \<noteq> n \<or> startswith_dot n \<or> category_of env n = None"
  shows "map_of (files st') m = Some (File c)"
  using assms(1)
proof (cases rule: sort_step_cases)
  case skipped
  with assms show ?thesis by simp
next
  case (raised t e)
  with assms show ?thesis by simp
next
  case (failed t e k)
  from assms(2) have "map_of (ensure_dir (files st) t) m = Some (File c)"
    by (auto simp: map_of_ensure_dir)
  with failed_map_of [OF failed(5,6)] show ?thesis by (cases "m = t") auto
next
  case (moved t k)
  from moved_map_of [OF moved(5) moved(1) moved(6)] moved(2,3) assms
  show ?thesis by (auto simp: map_of_ensure_dir split: if_splits)
qed

lemma step_dir_kept:
  assumes "state_of (sort_loop EXTENSION_MAP env [n] st) = Some st'"
    and "map_of (files st) m = Some (Dir es)"
  shows "\<exists>es'. map_of (files st') m = Some (Dir es') \<and> keeps es es'
      \<and> (category_of env n \<noteq> Some m \<longrightarrow> es' = es)"
  using assms(1)
proof (cases rule: sort_step_cases)
  case skipped
  with assms show ?thesis by simp
next
  case (raised t e)
  with assms show ?thesis by simp
next
  case (failed t e k)
  from assms(2) have m: "map_of (ensure_dir (files st) t) m = Some (Dir es)"
    by (auto simp: map_of_ensure_dir)
  show ?thesis
  proof (cases "m = t")
    case True
    with failed_map_of(2) [OF failed(5,6)] m failed(3) show ?thesis
      by (auto simp: keeps_append)
  next
    case False
    with failed_map_of(1) [OF failed(5,6)] m failed(3) show ?thesis by auto
  qed
next
  case (moved t k)
  from moved_map_of [OF moved(5) moved(1) moved(6)]
  obtain c es0 where mv: "map_of (files st) n = Some (File c)" "n \<noteq> t"
    "map_of (ensure_dir (files st) t) t = Some (Dir es0)" "map_of es0 (candidate n k) = None"
    "map_of (files st') = ((map_of (ensure_dir (files st) t))
        (t \<mapsto> Dir (es0 @ [(candidate n k, File c)])))(n := None)"
    by blast
  from assms(2) mv(1) have "m \<noteq> n" by auto
  show ?thesis
  proof (cases "m = t")
    case True
    with assms(2) mv(3) have "es0 = es" by (simp add: map_of_ensure_dir)
    with mv(4) have "keeps es (es0 @ [(candidate n k, File c)])"
      by (simp add: keeps_append)
    with True mv(5) \<open>m \<noteq> n\<close> moved(3) show ?thesis by auto
  next
    case False
    with mv(5) \<open>m \<noteq> n\<close> moved(3) assms show ?thesis
      by (auto simp: map_of_ensure_dir)
  qed
qed

lemma step_file_old:
  assumes "state_of (sort_loop EXTENSION_MAP env [n] st) = Some st'"
    and "map_of (files st') m = Some (File c)"
  shows "map_of (files st) m = Some (File c)"
  using assms(1)
proof (cases rule: sort_step_cases)
  case skipped
  with assms show ?thesis by simp
next
  case (raised t e)
  with assms show ?thesis by simp
next
  case (failed t e k)
  have "map_of (ensure_dir (files st) t) m = Some (File c)"
  proof (cases "m = t")
    case True
    with failed_map_of(2) [OF failed(5,6)] assms(2) show ?thesis by auto
  next
    case False
    with failed_map_of(1) [OF failed(5,6)] assms(2) show ?thesis by auto
  qed
  then show ?thesis by (auto simp: map_of_ensure_dir split: if_splits)
next
  case (moved t k)
  from moved_map_of [OF moved(5) moved(1) moved(6)] assms
  show ?thesis by (auto simp: map_of_ensure_dir split: if_splits)
qed

lemma step_none:
  assumes "state_of (sort_loop EXTENSION_MAP env [n] st) = Some st'"
    and "map_of (files st) m = None"
  shows "map_of (files st') m = None
      \<or> (category_of env n = Some m \<and> (\<exists>es'. map_of (files st') m = Some (Dir es')))"
  using assms(1)
proof (cases rule: sort_step_cases)
  case skipped
  with assms show ?thesis by simp
next
  case (raised t e)
  with assms show ?thesis by simp
next
  case (failed t e k)
  show ?thesis
  proof (cases "m = t")
    case True
    with failed_map_of(2) [OF failed(5,6)] failed(3) assms(2) show ?thesis
      by (auto simp: map_of_ensure_dir)
  next
    case False
    with failed_map_of(1) [OF failed(5,6)] assms(2) show ?thesis
      by (auto simp: map_of_ensure_dir)
  qed
next
  case (moved t k)
  from moved_map_of [OF moved(5) moved(1) moved(6)] moved(3) assms
  show ?thesis by (auto simp: map_of_ensure_dir split: if_splits)
qed

lemma step_stdout:
  assumes "state_of (sort_loop EXTENSION_MAP env [n] st) = Some st'"
  shows "\<exists>out. stdout st' = stdout st @ out"
  using assms by (cases rule: sort_step_cases) auto

lemma sort_step_not_Diverges: "sort_loop rules env [n] st \<noteq> Diverges"
  by (auto simp: sort_loop_single move_file_Classify move_file_into_not_Diverges
      split: option.splits)


text \<open>A property that every step preserves holds after the loop, however it ends.\<close>

lemma sort_loop_state_cases:
  assumes "state_of (sort_loop rules env (n # ns) st) = Some st'"
  obtains "state_of (sort_loop rules env [n] st) = Some st'"
  | st1 where "sort_loop rules env [n] st = Returns st1"
      "state_of (sort_loop rules env ns st1) = Some st'"
  using assms by (subst (asm) sort_loop_Cons) (auto split: outcome.splits)

lemma sort_loop_invariant:
  assumes step: "\<And>n st st'. n \<in> set ns \<Longrightarrow> P st \<Longrightarrow>
      state_of (sort_loop rules env [n] st) = Some st' \<Longrightarrow> P st'"
    and "P st" and "state_of (sort_loop rules env ns st) = Some st'"
  shows "P st'"
  using assms
proof (induction ns arbitrary: st)
  case Nil
  then show ?case by simp
next
  case (Cons n ns)
  from Cons.prems(3) show ?case
  proof (cases rule: sort_loop_state_cases)
    case 1
    with Cons.prems(1) [of n st st'] Cons.prems(2) show ?thesis by simp
  next
    case (2 st1)
    with Cons.prems(1) [of n st st1] Cons.prems(2) have "P st1" by simp
    show ?thesis
    proof (rule Cons.IH [of st1])
      fix m s s' assume "m \<in> set ns" "P s" "state_of (sort_loop rules env [m] s) = Some s'"
      then show "P s'" using Cons.prems(1) [of m s s'] by simp
    next
      show "P st1" by fact
    next
      show "state_of (sort_loop rules env ns st1) = Some st'" by (rule 2(2))
    qed
  qed
qed

section \<open>Entries that are left in place\<close>


lemma sort_loop_dir_kept:
  assumes "state_of (sort_loop EXTENSION_MAP env ns st) = Some st'"
    and "map_of (files st) m = Some (Dir es)"
  shows "\<exists>es'. map_of (files st') m = Some (Dir es') \<and> keeps es es'
      \<and> ((\<forall>n. category_of env n \<noteq> Some m) \<longrightarrow> es' = es)"
proof (rule sort_loop_invariant [where P = "\<lambda>s. \<exists>es'. map_of (files s) m = Some (Dir es')
      \<and> keeps es es' \<and> ((\<forall>n. category_of env n \<noteq> Some m) \<longrightarrow> es' = es)"
      and ns = ns and env = env and st = st and rules = EXTENSION_MAP])
  fix n s s'
  assume "n \<in> set ns"
    and "\<exists>es'. map_of (files s) m = Some (Dir es') \<and> keeps es es'
      \<and> ((\<forall>n. category_of env n \<noteq> Some m) \<longrightarrow> es' = es)"
    and step: "state_of (sort_loop EXTENSION_MAP env [n] s) = Some s'"
  then obtain es1 where es1: "map_of (files s) m = Some (Dir es1)" "keeps es es1"
    "(\<forall>n. category_of env n \<noteq> Some m) \<longrightarrow> es1 = es" by blast
  from step_dir_kept [OF step es1(1)] obtain es2 where
    "map_of (files s') m = Some (Dir es2)" "keeps es1 es2"
    "category_of env n \<noteq> Some m \<longrightarrow> es2 = es1" by blast
  with es1 show "\<exists>es'. map_of (files s') m = Some (Dir es') \<and> keeps es es'
      \<and> ((\<forall>n. category_of env n \<noteq> Some m) \<longrightarrow> es' = es)"
    by (auto intro: keeps_trans)
qed (use assms in auto)





lemma example_run: "sort_files EXTENSION_MAP no_faults example_state = Returns example_sorted"
  by (simp add: example_state_def example_sorted_def eval_defs)


text \<open>
  The extension is compared after \<^verbatim>\<open>str.lower\<close> as Python has it. The name made of
  \<open>a.M\<close>, the Kelvin sign (U+212A, three bytes in UTF-8) and \<open>V\<close> has an extension
  that is not ASCII; with an environment whose \<open>unicode_lower\<close> maps it to \<open>.mkv\<close>, as
  Python's does, the file is a video and is sorted.
\<close>

lemma kelvin_sign_is_sorted:
  "sort_files EXTENSION_MAP
     (no_faults\<lparr>unicode_lower :=
        (\<lambda>s. if s = ''.M'' @ [CHR 0xE2, CHR 0x84, CHR 0xAA] @ ''V'' then ''.mkv'' else s)\<rparr>)
     \<lparr>files = [(''a.M'' @ [CHR 0xE2, CHR 0x84, CHR 0xAA] @ ''V'', File (1::nat))], stdout = []\<rparr>
   = Returns
       \<lparr>files = [(''Video'', Dir [(''a.M'' @ [CHR 0xE2, CHR 0x84, CHR 0xAA] @ ''V'', File 1)])],
        stdout = [Moved (''a.M'' @ [CHR 0xE2, CHR 0x84, CHR 0xAA] @ ''V'')
                        (''a.M'' @ [CHR 0xE2, CHR 0x84, CHR 0xAA] @ ''V'')]\<rparr>"
  by (simp add: eval_defs)

section \<open>The first matching category\<close>

lemma move_file_into_others:
  assumes "state_of (move_file_into env st t f) = Some st'" and "m \<noteq> t" and "m \<noteq> f"
  shows "map_of (files st') m = map_of (files st) m"
proof (cases rule: move_file_into_cases [where st = st and t = t and env = env and f = f])
  case (raised e)
  with assms show ?thesis by simp
next
  case (failed e k d')
  with assms(1) have "state_of (except_handler env \<lparr>files = d', stdout = stdout st\<rparr> f e)
      = Some st'" by simp
  from except_handler_state [OF this] have "files st' = d'" by simp
  with failed_map_of(1) [OF failed(2,3)] assms(2) show ?thesis
    by (simp add: map_of_ensure_dir)
next
  case (moved k d2)
  have "files st' = d2"
    using moved(5)
  proof
    assume "move_file_into env st t f
        = Returns \<lparr>files = d2, stdout = stdout st @ [Moved f (candidate f k)]\<rparr>"
    with assms(1) show ?thesis by auto
  next
    assume "\<exists>e. print_error env (Moved f (candidate f k)) = Some e
        \<and> move_file_into env st t f = except_handler env \<lparr>files = d2, stdout = stdout st\<rparr> f e"
    then obtain e where
      "move_file_into env st t f = except_handler env \<lparr>files = d2, stdout = stdout st\<rparr> f e"
      by blast
    with assms(1) have "state_of (except_handler env \<lparr>files = d2, stdout = stdout st\<rparr> f e)
        = Some st'" by simp
    from except_handler_state [OF this] show ?thesis by simp
  qed
  moreover from moved(2) assms(2,3) have "map_of d2 m = map_of (ensure_dir (files st) t) m"
    unfolding shutil_move_Inr by (auto simp: AList.update_conv' AList.delete_conv')
  ultimately show ?thesis using assms(2) by (simp add: map_of_ensure_dir)
qed

text \<open>When \<^verbatim>\<open>move_file\<close> returns and the move could not fail, the file has been moved.\<close>

lemma move_file_into_moves:
  assumes "move_file_into env st t f = Returns st'"
    and "map_of (files st) f = Some (File c)" and "f \<noteq> t"
    and "move_error env f = None" and "\<forall>c'. map_of (files st) t \<noteq> Some (File c')"
  shows "map_of (files st') f = None
      \<and> (\<exists>es k. map_of (files st') t = Some (Dir es)
            \<and> map_of es (candidate f k) = Some (File c)
            \<and> (\<forall>j<k. map_of es (candidate f j) \<noteq> None))"
proof (cases rule: move_file_into_cases [where st = st and t = t and env = env and f = f])
  case (raised e)
  with assms(1) show ?thesis by simp
next
  case (failed e k d')
  from assms(5) obtain es where "map_of (ensure_dir (files st) t) t = Some (Dir es)"
    by (cases "map_of (files st) t") (auto simp: map_of_ensure_dir intro: node.exhaust)
  moreover from assms(2,3) have "map_of (ensure_dir (files st) t) f = Some (File c)"
    by (simp add: map_of_ensure_dir)
  ultimately show ?thesis
    using failed(2) assms(3,4) by (simp add: shutil_move_Inl)
next
  case (moved k d2)
  have st': "files st' = d2"
    using moved(5)
  proof
    assume "move_file_into env st t f
        = Returns \<lparr>files = d2, stdout = stdout st @ [Moved f (candidate f k)]\<rparr>"
    with assms(1) show ?thesis by auto
  next
    assume "\<exists>e. print_error env (Moved f (candidate f k)) = Some e
        \<and> move_file_into env st t f = except_handler env \<lparr>files = d2, stdout = stdout st\<rparr> f e"
    then obtain e where
      "move_file_into env st t f = except_handler env \<lparr>files = d2, stdout = stdout st\<rparr> f e"
      by blast
    with assms(1) have "state_of (except_handler env \<lparr>files = d2, stdout = stdout st\<rparr> f e)
        = Some st'" by simp
    from except_handler_state [OF this] show ?thesis by simp
  qed
  from assms(2) have nd: "\<not> os_path_isdir (files st) f" by (simp add: os_path_isdir_def)
  from moved_map_of [OF moved(2) nd moved(3)] assms(2)
  obtain es where mv: "map_of (ensure_dir (files st) t) t = Some (Dir es)"
    "map_of es (candidate f k) = None"
    "map_of d2 = ((map_of (ensure_dir (files st) t))(t \<mapsto> Dir (es @ [(candidate f k, File c)])))
        (f := None)"
    by auto
  from moved(4) mv(1) have ex: "\<forall>j<k. map_of es (candidate f j) \<noteq> None"
    by (simp add: exists_in_def)
  let ?es = "es @ [(candidate f k, File c)]"
  have "map_of (files st') f = None" using st' mv(3) by simp
  moreover have "map_of (files st') t = Some (Dir ?es)" using st' mv(3) assms(3) by simp
  moreover have "map_of ?es (candidate f k) = Some (File c)"
    using mv(2) by (simp add: map_add_def)
  moreover have "\<forall>j<k. map_of ?es (candidate f j) \<noteq> None"
    using ex by (auto simp: map_add_def split: option.splits)
  ultimately show ?thesis by blast
qed

text \<open>
  Claim C7, as the code has it. Let the lower-case extension of a file name be listed
  for the category \<open>folder_name\<close> and for no category before it in the table, whatever
  comes after it (also further categories listing the same extension). Then the
  specification's \<open>Classify\<close> gives \<open>folder_name\<close>, and \<^verbatim>\<open>move_file\<close> works on that
  category only: however it ends, no entry of the watched directory other than the file
  and the folder \<open>folder_name\<close> is created or changed; and when it returns and the move
  could not fail, the file is in that folder and no longer in the watched directory.
\<close>

theorem move_file_first_match:
  assumes "lower env (snd (splitext filename)) \<in> set extensions"
    and "\<forall>p \<in> set pre. lower env (snd (splitext filename)) \<notin> set (snd p)"
  shows "Classify_spec (pre @ (folder_name, extensions) # post)
             (lower env (snd (splitext filename))) = Some folder_name
     \<and> (state_of (move_file (pre @ (folder_name, extensions) # post) env st filename) = Some st'
          \<and> m \<noteq> folder_name \<and> m \<noteq> filename
        \<longrightarrow> map_of (files st') m = map_of (files st) m)
     \<and> (move_file (pre @ (folder_name, extensions) # post) env st filename = Returns st'
          \<and> map_of (files st) filename = Some (File c) \<and> filename \<noteq> folder_name
          \<and> move_error env filename = None
          \<and> (\<forall>c'. map_of (files st) folder_name \<noteq> Some (File c'))
        \<longrightarrow> map_of (files st') filename = None
          \<and> (\<exists>es k. map_of (files st') folder_name = Some (Dir es)
                \<and> map_of es (candidate filename k) = Some (File c)
                \<and> (\<forall>j<k. map_of es (candidate filename j) \<noteq> None)))"
proof -
  let ?rules = "pre @ (folder_name, extensions) # post"
  from assms have cl: "Classify_spec ?rules (lower env (snd (splitext filename)))
      = Some folder_name"
    by (rule Classify_spec_first)
  then have mf: "move_file ?rules env st filename = move_file_into env st folder_name filename"
    by (simp add: move_file_Classify)
  show ?thesis
    unfolding mf
  proof (intro conjI impI)
    show "Classify_spec ?rules (lower env (snd (splitext filename))) = Some folder_name"
      by (rule cl)
  next
    assume "state_of (move_file_into env st folder_name filename) = Some st'
        \<and> m \<noteq> folder_name \<and> m \<noteq> filename"
    then show "map_of (files st') m = map_of (files st) m"
      by (elim conjE) (rule move_file_into_others)
  next
    assume a: "move_file_into env st folder_name filename = Returns st'
        \<and> map_of (files st) filename = Some (File c) \<and> filename \<noteq> folder_name
        \<and> move_error env filename = None
        \<and> (\<forall>c'. map_of (files st) folder_name \<noteq> Some (File c'))"
    then show "map_of (files st') filename = None"
      by (elim conjE) (rule move_file_into_moves [THEN conjunct1])
    from a show "\<exists>es k. map_of (files st') folder_name = Some (Dir es)
                \<and> map_of es (candidate filename k) = Some (File c)
                \<and> (\<forall>j<k. map_of es (candidate filename j) \<noteq> None)"
      by (elim conjE) (rule move_file_into_moves [THEN conjunct2])
  qed
qed

theorem move_file_first_match_witness:
  "lower (no_faults :: nat environment) (snd (splitext ''a.png'')) \<in> set [''.png'']
   \<and> two_categories = [] @ (''Images'', [''.png'']) # [(''Pictures'', [''.png'', ''.jpg''])]
   \<and> lower (no_faults :: nat environment) (snd (splitext ''a.png'')) \<in> set [''.png'', ''.jpg'']
   \<and> Classify_spec two_categories (lower (no_faults :: nat environment) (snd (splitext ''a.png''))) = Some ''Images''
   \<and> move_file two_categories no_faults example_two ''a.png''
        = Returns \<lparr>files = [(''b.pdf'', File 2), (''Images'', Dir [(''a.png'', File 1)])],
                    stdout = [Moved ''a.png'' ''a.png'']\<rparr>
   \<and> map_of [(''b.pdf'', File 2), (''Images'', Dir [(''a.png'', File (1::nat))])] ''Pictures''
        = map_of (files example_two) ''Pictures''
   \<and> map_of [(''b.pdf'', File 2), (''Images'', Dir [(''a.png'', File (1::nat))])] ''a.png'' = None
   \<and> (\<exists>es k. map_of [(''b.pdf'', File 2), (''Images'', Dir [(''a.png'', File (1::nat))])]
                  ''Images'' = Some (Dir es)
          \<and> map_of es (candidate ''a.png'' k) = Some (File 1))"
proof -
  let ?st' = "\<lparr>files = [(''b.pdf'', File 2), (''Images'', Dir [(''a.png'', File (1::nat))])],
                    stdout = [Moved ''a.png'' ''a.png'']\<rparr>"
  have tc: "two_categories = [] @ (''Images'', [''.png'']) # [(''Pictures'', [''.png'', ''.jpg''])]"
    by (simp add: two_categories_def)
  have run: "move_file two_categories no_faults example_two ''a.png'' = Returns ?st'"
    by (simp add: example_two_def two_categories_def eval_defs)
  have h: "lower (no_faults :: nat environment) (snd (splitext ''a.png'')) \<in> set [''.png'']"
    "\<forall>p \<in> set []. lower (no_faults :: nat environment) (snd (splitext ''a.png'')) \<notin> set (snd p)"
    "lower (no_faults :: nat environment) (snd (splitext ''a.png'')) \<in> set [''.png'', ''.jpg'']"
    by (simp_all add: eval_defs)
  have g: "map_of (files example_two) ''a.png'' = Some (File 1)" "''a.png'' \<noteq> ''Images''"
    "move_error no_faults ''a.png'' = None"
    "\<forall>c'. map_of (files example_two) ''Images'' \<noteq> Some (File c')"
    "''Pictures'' \<noteq> ''Images''" "''Pictures'' \<noteq> ''a.png''"
    by (simp_all add: example_two_def no_faults_def)
  note inst = move_file_first_match [OF h(1,2), of "''Images''"
      "[(''Pictures'', [''.png'', ''.jpg''])]" example_two ?st' "''Pictures''" 1, folded tc]
  have 1: "Classify_spec two_categories (lower (no_faults :: nat environment) (snd (splitext ''a.png'')))
      = Some ''Images''"
    by (rule inst [THEN conjunct1])
  have "state_of (move_file two_categories no_faults example_two ''a.png'') = Some ?st'
      \<and> ''Pictures'' \<noteq> ''Images'' \<and> ''Pictures'' \<noteq> ''a.png''"
    using run g(5,6) by (simp only: state_of.simps) simp
  from inst [THEN conjunct2, THEN conjunct1, THEN mp, OF this]
  have 2: "map_of [(''b.pdf'', File 2), (''Images'', Dir [(''a.png'', File (1::nat))])] ''Pictures''
      = map_of (files example_two) ''Pictures''"
    by simp
  have "move_file two_categories no_faults example_two ''a.png'' = Returns ?st'
      \<and> map_of (files example_two) ''a.png'' = Some (File 1) \<and> ''a.png'' \<noteq> ''Images''
      \<and> move_error no_faults ''a.png'' = None
      \<and> (\<forall>c'. map_of (files example_two) ''Images'' \<noteq> Some (File c'))"
    using run g(1,2,3,4) by (intro conjI)
  from inst [THEN conjunct2, THEN conjunct2, THEN mp, OF this]
  have "map_of (files ?st') ''a.png'' = None" by (rule conjunct1)
  then have 3: "map_of [(''b.pdf'', File 2), (''Images'', Dir [(''a.png'', File (1::nat))])]
      ''a.png'' = None"
    by (simp only: state.select_convs)
  have 4: "\<exists>es k. map_of [(''b.pdf'', File 2), (''Images'', Dir [(''a.png'', File (1::nat))])]
                  ''Images'' = Some (Dir es)
          \<and> map_of es (candidate ''a.png'' k) = Some (File 1)"
    by (intro exI [of _ "[(''a.png'', File 1)]"] exI [of _ 0]) (simp add: candidate_def)
  from h(1) tc h(3) 1 run 2 3 4 show ?thesis by (intro conjI)
qed

text \<open>
  The claim as it is written fails where the move fails. With \<open>.png\<close> listed under
  \<open>Images\<close> and \<open>Pictures\<close> and the name \<open>Images\<close> taken by a file, \<open>a.png\<close> is
  moved into no category folder: it stays in the watched directory, and \<open>Pictures\<close> is
  not tried.
\<close>

theorem move_file_first_match_counterexample:
  "lower (no_faults :: nat environment) (snd (splitext ''a.png'')) \<in> set [''.png'']
   \<and> lower (no_faults :: nat environment) (snd (splitext ''a.png'')) \<in> set [''.png'', ''.jpg'']
   \<and> Classify_spec two_categories (lower (no_faults :: nat environment) (snd (splitext ''a.png'')))
        = Some ''Images''
   \<and> move_file two_categories no_faults example_blocked ''a.png''
        = Returns \<lparr>files = [(''Images'', File 0), (''a.png'', File 1)],
                    stdout = [MoveFailed ''a.png'' NotADirectoryError]\<rparr>
   \<and> sort_files two_categories no_faults example_blocked
        = Returns \<lparr>files = [(''Images'', File 0), (''a.png'', File 1)],
                    stdout = [MoveFailed ''a.png'' NotADirectoryError]\<rparr>
   \<and> map_of [(''Images'', File (0::nat)), (''a.png'', File 1)] ''a.png'' = Some (File 1)
   \<and> map_of [(''Images'', File (0::nat)), (''a.png'', File 1)] ''Images'' = Some (File 0)
   \<and> map_of [(''Images'', File (0::nat)), (''a.png'', File 1)] ''Pictures'' = None"
proof -
  have 1: "lower (no_faults :: nat environment) (snd (splitext ''a.png'')) = ''.png''"
    by (simp add: eval_defs)
  have 2: "Classify_spec two_categories ''.png'' = Some ''Images''"
    by (simp add: Classify_spec_def two_categories_def)
  have 3: "move_file two_categories no_faults example_blocked ''a.png''
        = Returns \<lparr>files = [(''Images'', File 0), (''a.png'', File 1)],
                    stdout = [MoveFailed ''a.png'' NotADirectoryError]\<rparr>"
    by (simp add: example_blocked_def two_categories_def eval_defs)
  have 4: "sort_files two_categories no_faults example_blocked
        = Returns \<lparr>files = [(''Images'', File 0), (''a.png'', File 1)],
                    stdout = [MoveFailed ''a.png'' NotADirectoryError]\<rparr>"
    by (simp add: example_blocked_def two_categories_def eval_defs)
  show ?thesis
    unfolding 1 2 using 3 4 by simp
qed

section \<open>Failures and notifications\<close>

lemma sort_loop_Raises:
  "sort_loop EXTENSION_MAP env ns st = Raises e st' \<Longrightarrow>
     (\<exists>t. makedirs_error env t = Some e) \<or> (\<exists>n e0. print_error env (MoveFailed n e0) = Some e)"
proof (induction ns arbitrary: st)
  case Nil
  then show ?case by simp
next
  case (Cons n ns)
  show ?case
  proof (cases "sort_loop EXTENSION_MAP env [n] st")
    case (Returns st1)
    from Cons.prems have "sort_loop EXTENSION_MAP env ns st1 = Raises e st'"
      unfolding sort_loop_step_Returns [OF Returns] .
    then show ?thesis by (rule Cons.IH)
  next
    case (Raises e1 st1)
    from Cons.prems have eq: "e1 = e" "st1 = st'"
      unfolding sort_loop_step_Raises [OF Raises] by simp_all
    from Raises have "state_of (sort_loop EXTENSION_MAP env [n] st) = Some st1" by simp
    then show ?thesis
    proof (cases rule: sort_step_cases)
      case skipped
      with Raises show ?thesis by simp
    next
      case (raised t e0)
      with Raises eq show ?thesis by auto
    next
      case (failed t e0 k)
      with Raises eq show ?thesis by auto
    next
      case (moved t k)
      with Raises eq show ?thesis by auto
    qed
  next
    case Diverges
    with sort_step_not_Diverges show ?thesis by blast
  qed
qed

lemma move_failed_step:
  assumes "\<not> os_path_isdir (files st) filename" and "\<not> startswith_dot filename"
    and "category_of env filename = Some t"
    and "map_of (files st) t = None \<longrightarrow> makedirs_error env t = None"
    and "get_unique_path (exists_in (ensure_dir (files st) t) t) filename = Some dest"
    and "shutil_move env (ensure_dir (files st) t) filename t dest = Inl (e, d')"
    and "print_error env (MoveFailed filename e) = None"
  shows "sort_loop EXTENSION_MAP env [filename] st =
     Returns \<lparr>files = d', stdout = stdout st @ [MoveFailed filename e]\<rparr>"
proof -
  from assms(4) have "(if \<not> os_path_exists (files st) t then os_makedirs env (files st) t
      else Inr (files st)) = Inr (ensure_dir (files st) t)"
    by (auto simp: makedirs_cases)
  with assms show ?thesis
    by (simp add: sort_loop_single move_file_category move_file_into_def except_handler_def
        print_line_def)
qed

text \<open>
  Claim C4, as the code has it. When the move of a file raises, whatever the exception,
  and the failure line with the file name and the exception can be printed, then
  \<^verbatim>\<open>move_file\<close> prints that line and the loop goes on with the remaining names, in
  the directory as the failed move has left it. An exception that ends
  \<^verbatim>\<open>sort_files\<close> is one of \<^verbatim>\<open>os.listdir\<close>, of \<^verbatim>\<open>os.makedirs\<close>, or of the
  \<^verbatim>\<open>print\<close> of a failure line; it is never the exception of a move.
\<close>

theorem move_failure_is_logged_and_skipped:
  "(\<not> os_path_isdir (files st) filename \<and> \<not> startswith_dot filename
      \<and> (t, exts) \<in> set EXTENSION_MAP \<and> lower env (snd (splitext filename)) \<in> set exts
      \<and> (map_of (files st) t = None \<longrightarrow> makedirs_error env t = None)
      \<and> get_unique_path (exists_in (ensure_dir (files st) t) t) filename = Some dest
      \<and> shutil_move env (ensure_dir (files st) t) filename t dest = Inl (e, d')
      \<and> print_error env (MoveFailed filename e) = None
    \<longrightarrow> sort_loop EXTENSION_MAP env (filename # rest) st
        = sort_loop EXTENSION_MAP env rest
            \<lparr>files = d', stdout = stdout st @ [MoveFailed filename e]\<rparr>)
   \<and> (sort_files EXTENSION_MAP env st = Raises e' st'
    \<longrightarrow> listdir_error env = Some e' \<or> (\<exists>c. makedirs_error env c = Some e')
        \<or> (\<exists>n e0. print_error env (MoveFailed n e0) = Some e'))"
proof (intro conjI impI)
  assume a: "\<not> os_path_isdir (files st) filename \<and> \<not> startswith_dot filename
      \<and> (t, exts) \<in> set EXTENSION_MAP \<and> lower env (snd (splitext filename)) \<in> set exts
      \<and> (map_of (files st) t = None \<longrightarrow> makedirs_error env t = None)
      \<and> get_unique_path (exists_in (ensure_dir (files st) t) t) filename = Some dest
      \<and> shutil_move env (ensure_dir (files st) t) filename t dest = Inl (e, d')
      \<and> print_error env (MoveFailed filename e) = None"
  then have "(t, exts) \<in> set EXTENSION_MAP \<and> lower env (snd (splitext filename)) \<in> set exts"
    by (elim conjE) (intro conjI)
  then have "category_of env filename = Some t"
    unfolding category_of_Some_iff by (rule exI)
  moreover from a have "\<not> os_path_isdir (files st) filename" "\<not> startswith_dot filename"
    "map_of (files st) t = None \<longrightarrow> makedirs_error env t = None"
    "get_unique_path (exists_in (ensure_dir (files st) t) t) filename = Some dest"
    "shutil_move env (ensure_dir (files st) t) filename t dest = Inl (e, d')"
    "print_error env (MoveFailed filename e) = None"
    by simp_all
  ultimately have "sort_loop EXTENSION_MAP env [filename] st =
     Returns \<lparr>files = d', stdout = stdout st @ [MoveFailed filename e]\<rparr>"
    by (intro move_failed_step)
  then show "sort_loop EXTENSION_MAP env (filename # rest) st
        = sort_loop EXTENSION_MAP env rest
            \<lparr>files = d', stdout = stdout st @ [MoveFailed filename e]\<rparr>"
    by (rule sort_loop_step_Returns)
next
  assume "sort_files EXTENSION_MAP env st = Raises e' st'"
  then have "listdir_error env = Some e'
      \<or> sort_loop EXTENSION_MAP env (map fst (files st)) st = Raises e' st'"
    by (cases "listdir_error env") (simp_all add: sort_files_def os_listdir_def)
  then show "listdir_error env = Some e' \<or> (\<exists>c. makedirs_error env c = Some e')
        \<or> (\<exists>n e0. print_error env (MoveFailed n e0) = Some e')"
    using sort_loop_Raises [of env "map fst (files st)" st e' st'] by auto
qed

theorem move_failure_is_logged_and_skipped_witness:
  "\<not> os_path_isdir (files example_two) ''a.png'' \<and> \<not> startswith_dot ''a.png''
   \<and> (''Images'', [''.jpg'', ''.jpeg'', ''.png'', ''.gif'', ''.svg'', ''.bmp'', ''.webp''])
        \<in> set EXTENSION_MAP
   \<and> lower move_denied (snd (splitext ''a.png''))
        \<in> set [''.jpg'', ''.jpeg'', ''.png'', ''.gif'', ''.svg'', ''.bmp'', ''.webp'']
   \<and> makedirs_error move_denied ''Images'' = None
   \<and> get_unique_path (exists_in (ensure_dir (files example_two) ''Images'') ''Images'') ''a.png''
        = Some ''a.png''
   \<and> shutil_move move_denied (ensure_dir (files example_two) ''Images'') ''a.png'' ''Images''
        ''a.png''
        = Inl (OtherError ''Permission denied'',
               [(''a.png'', File 1), (''b.pdf'', File 2), (''Images'', Dir [(''a.png'', File 1)])])
   \<and> print_error move_denied (MoveFailed ''a.png'' (OtherError ''Permission denied'')) = None
   \<and> sort_loop EXTENSION_MAP move_denied [''a.png'', ''b.pdf''] example_two
        = Returns \<lparr>files = [(''a.png'', File 1), (''Images'', Dir [(''a.png'', File 1)]),
                              (''Documents'', Dir [(''b.pdf'', File 2)])],
                     stdout = [MoveFailed ''a.png'' (OtherError ''Permission denied''),
                               Moved ''b.pdf'' ''b.pdf'']\<rparr>
   \<and> sort_files EXTENSION_MAP makedirs_denied example_two = Raises FileExistsError example_two
   \<and> makedirs_error makedirs_denied ''Images'' = Some FileExistsError"
proof -
  let ?exts = "[''.jpg'', ''.jpeg'', ''.png'', ''.gif'', ''.svg'', ''.bmp'', ''.webp'']"
  let ?e = "OtherError ''Permission denied''"
  let ?d' = "[(''a.png'', File (1::nat)), (''b.pdf'', File 2),
              (''Images'', Dir [(''a.png'', File 1)])]"
  let ?st1 = "\<lparr>files = ?d', stdout = stdout example_two @ [MoveFailed ''a.png'' ?e]\<rparr>"
  have h: "\<not> os_path_isdir (files example_two) ''a.png''" "\<not> startswith_dot ''a.png''"
    "(''Images'', ?exts) \<in> set EXTENSION_MAP"
    "lower move_denied (snd (splitext ''a.png'')) \<in> set ?exts"
    "makedirs_error move_denied ''Images'' = None"
    "get_unique_path (exists_in (ensure_dir (files example_two) ''Images'') ''Images'') ''a.png''
        = Some ''a.png''"
    "shutil_move move_denied (ensure_dir (files example_two) ''Images'') ''a.png'' ''Images''
        ''a.png'' = Inl (?e, ?d')"
    "print_error move_denied (MoveFailed ''a.png'' ?e) = None"
    by (simp_all add: example_two_def move_denied_def ensure_dir_def eval_defs)
  have raise: "sort_files EXTENSION_MAP makedirs_denied example_two
      = Raises FileExistsError example_two"
    by (simp add: example_two_def makedirs_denied_def eval_defs)
  have rest: "sort_loop EXTENSION_MAP move_denied [''b.pdf''] ?st1
      = Returns \<lparr>files = [(''a.png'', File 1), (''Images'', Dir [(''a.png'', File 1)]),
                              (''Documents'', Dir [(''b.pdf'', File 2)])],
                     stdout = [MoveFailed ''a.png'' ?e, Moved ''b.pdf'' ''b.pdf'']\<rparr>"
    by (simp add: example_two_def move_denied_def eval_defs)
  have hyp: "\<not> os_path_isdir (files example_two) ''a.png'' \<and> \<not> startswith_dot ''a.png''
      \<and> (''Images'', ?exts) \<in> set EXTENSION_MAP
      \<and> lower move_denied (snd (splitext ''a.png'')) \<in> set ?exts
      \<and> (map_of (files example_two) ''Images'' = None
            \<longrightarrow> makedirs_error move_denied ''Images'' = None)
      \<and> get_unique_path (exists_in (ensure_dir (files example_two) ''Images'') ''Images'')
            ''a.png'' = Some ''a.png''
      \<and> shutil_move move_denied (ensure_dir (files example_two) ''Images'') ''a.png''
            ''Images'' ''a.png'' = Inl (?e, ?d')
      \<and> print_error move_denied (MoveFailed ''a.png'' ?e) = None"
    using h by (intro conjI impI)
  have "sort_loop EXTENSION_MAP move_denied [''a.png'', ''b.pdf''] example_two
      = sort_loop EXTENSION_MAP move_denied [''b.pdf''] ?st1"
    by (rule move_failure_is_logged_and_skipped [of example_two "''a.png''" "''Images''" ?exts
      move_denied "''a.png''" ?e ?d' "[''b.pdf'']", THEN conjunct1, THEN mp, OF hyp])
  with rest have run: "sort_loop EXTENSION_MAP move_denied [''a.png'', ''b.pdf''] example_two
      = Returns \<lparr>files = [(''a.png'', File 1), (''Images'', Dir [(''a.png'', File 1)]),
                              (''Documents'', Dir [(''b.pdf'', File 2)])],
                     stdout = [MoveFailed ''a.png'' ?e, Moved ''b.pdf'' ''b.pdf'']\<rparr>"
    by (simp only:)
  have "listdir_error makedirs_denied = Some FileExistsError
      \<or> (\<exists>c. makedirs_error makedirs_denied c = Some FileExistsError)
      \<or> (\<exists>n e0. print_error makedirs_denied (MoveFailed n e0) = Some FileExistsError)"
    by (rule move_failure_is_logged_and_skipped [of example_two "''a.png''" "''Images''" ?exts
      makedirs_denied "''a.png''" ?e ?d' "[]" FileExistsError example_two, THEN conjunct2,
      THEN mp, OF raise])
  then have mk: "makedirs_error makedirs_denied ''Images'' = Some FileExistsError"
    by (simp add: makedirs_denied_def)
  from h run raise mk show ?thesis by (intro conjI)
qed

text \<open>
  The claim as it is written fails where the failure line cannot be printed: the
  \<^verbatim>\<open>print\<close> of the \<^verbatim>\<open>except\<close> branch is inside no \<^verbatim>\<open>try\<close>. With \<open>a.png\<close> and
  \<open>b.pdf\<close> in the watched directory, the move of \<open>a.png\<close> raising and the standard
  output closed, \<^verbatim>\<open>sort_files\<close> ends with the exception of \<^verbatim>\<open>print\<close> at \<open>a.png\<close>:
  nothing is logged, and \<open>b.pdf\<close>, whose move would not fail, is never looked at.
\<close>

theorem move_failure_unprintable_counterexample:
  "shutil_move print_denied (ensure_dir (files example_two) ''Images'') ''a.png'' ''Images''
        ''a.png''
     = Inl (OtherError ''Permission denied'',
            [(''a.png'', File 1), (''b.pdf'', File 2), (''Images'', Dir [(''a.png'', File 1)])])
   \<and> sort_files EXTENSION_MAP print_denied example_two
     = Raises (OtherError ''Input/output error'')
         \<lparr>files = [(''a.png'', File 1), (''b.pdf'', File 2),
                   (''Images'', Dir [(''a.png'', File 1)])],
          stdout = []\<rparr>
   \<and> listdir_error print_denied = None
   \<and> makedirs_error print_denied ''Images'' = None
   \<and> makedirs_error print_denied ''Documents'' = None
   \<and> move_error print_denied ''b.pdf'' = None
   \<and> category_of print_denied ''b.pdf'' = Some ''Documents''"
  by (simp add: example_two_def print_denied_def ensure_dir_def category_of_def
      Classify_spec_def eval_defs)

text \<open>
  Claim C5, on the code: \<^verbatim>\<open>os.makedirs\<close> is called before the \<^verbatim>\<open>try\<close>, so its
  exception is not caught. With \<open>a.png\<close> and \<open>b.pdf\<close> in the watched directory and
  the creation of \<open>Images\<close> failing, \<^verbatim>\<open>sort_files\<close> ends with that exception at
  \<open>a.png\<close>: nothing is printed, and \<open>b.pdf\<close>, which belongs to another category whose
  folder could be created, is not moved. Without the failure both files are sorted.
\<close>

theorem makedirs_failure_aborts_rescan:
  "sort_files EXTENSION_MAP makedirs_denied example_two = Raises FileExistsError example_two
   \<and> stdout example_two = []
   \<and> map_of (files example_two) ''b.pdf'' = Some (File 2)
   \<and> makedirs_error makedirs_denied ''Documents'' = None
   \<and> sort_files EXTENSION_MAP no_faults example_two
       = Returns \<lparr>files = [(''Images'', Dir [(''a.png'', File 1)]),
                            (''Documents'', Dir [(''b.pdf'', File 2)])],
                   stdout = [Moved ''a.png'' ''a.png'', Moved ''b.pdf'' ''b.pdf'']\<rparr>"
  by (simp add: example_two_def makedirs_denied_def eval_defs)

text \<open>
  When \<^verbatim>\<open>os.listdir\<close> raises, \<^verbatim>\<open>sort_files\<close> ends with that exception before it has
  looked at any entry, and so does \<^verbatim>\<open>on_modified\<close>: nothing in the class catches it.
\<close>

lemma sort_files_listdir_failure:
  "listdir_error env = Some e \<Longrightarrow> sort_files rules env st = Raises e st"
  by (simp add: sort_files_def os_listdir_def)

lemma on_modified_listdir_failure:
  "listdir_error env = Some e \<Longrightarrow> \<not> is_directory ev \<Longrightarrow>
     on_modified rules env ev st = Raises e st"
  by (simp add: on_modified_def sort_files_listdir_failure)

text \<open>
  Claim C8, as the code has it: \<^verbatim>\<open>on_modified\<close> starts a rescan for a notification
  that does not concern a directory, and does nothing for one that does.
\<close>

theorem on_modified_rescans_for_files:
  "(\<not> is_directory ev \<longrightarrow> on_modified EXTENSION_MAP env ev st = sort_files EXTENSION_MAP env st)
   \<and> (is_directory ev \<longrightarrow> on_modified EXTENSION_MAP env ev st = Returns st)"
  by (simp add: on_modified_def)

theorem on_modified_rescans_for_files_witness:
  "\<not> is_directory \<lparr>is_directory = False, src_path = ''photo.PNG''\<rparr>
   \<and> on_modified EXTENSION_MAP no_faults \<lparr>is_directory = False, src_path = ''photo.PNG''\<rparr>
         example_state
       = Returns example_sorted
   \<and> is_directory \<lparr>is_directory = True, src_path = ''Misc''\<rparr>
   \<and> on_modified EXTENSION_MAP no_faults \<lparr>is_directory = True, src_path = ''Misc''\<rparr>
         example_state
       = Returns example_state"
  using on_modified_rescans_for_files
      [of "\<lparr>is_directory = False, src_path = ''photo.PNG''\<rparr>" no_faults example_state]
    on_modified_rescans_for_files
      [of "\<lparr>is_directory = True, src_path = ''Misc''\<rparr>" no_faults example_state]
  by (simp add: example_run)

text \<open>
  A notification about a directory does not start a rescan: the watched directory of
  the example stays unsorted.
\<close>

theorem on_modified_directory_event_counterexample:
  "on_modified EXTENSION_MAP no_faults \<lparr>is_directory = True, src_path = ''Misc''\<rparr>
       example_state
     \<noteq> sort_files EXTENSION_MAP no_faults example_state"
proof -
  have "files example_state \<noteq> files example_sorted"
    by (simp add: example_state_def example_sorted_def)
  then have "Returns example_state \<noteq> Returns example_sorted" by auto
  then show ?thesis by (simp add: on_modified_def example_run)
qed

section \<open>Files that are sorted\<close>

lemma sort_loop_none:
  assumes "state_of (sort_loop EXTENSION_MAP env ns st) = Some st'"
    and "map_of (files st) m = None" and "\<forall>n. category_of env n \<noteq> Some m"
  shows "map_of (files st') m = None"
proof (rule sort_loop_invariant [where P = "\<lambda>s. map_of (files s) m = None"
      and ns = ns and env = env and st = st and rules = EXTENSION_MAP])
  fix n s s'
  assume "map_of (files s) m = None" "state_of (sort_loop EXTENSION_MAP env [n] s) = Some s'"
  from step_none [OF this(2,1)] assms(3) show "map_of (files s') m = None" by auto
qed (use assms in auto)

lemma sort_loop_file_old:
  assumes "state_of (sort_loop EXTENSION_MAP env ns st) = Some st'"
    and "\<forall>c. map_of (files st) m \<noteq> Some (File c)"
  shows "\<forall>c. map_of (files st') m \<noteq> Some (File c)"
proof (rule sort_loop_invariant [where P = "\<lambda>s. \<forall>c. map_of (files s) m \<noteq> Some (File c)"
      and ns = ns and env = env and st = st and rules = EXTENSION_MAP])
  fix n s s'
  assume "\<forall>c. map_of (files s) m \<noteq> Some (File c)"
    "state_of (sort_loop EXTENSION_MAP env [n] s) = Some s'"
  then show "\<forall>c. map_of (files s') m \<noteq> Some (File c)"
    using step_file_old [of env n s s' m] by blast
qed (use assms in auto)

text \<open>The step that looks at a file that can be moved does move it.\<close>

lemma step_moves:
  assumes "sort_loop EXTENSION_MAP env [f] st = Returns st1"
    and "map_of (files st) f = Some (File c)" and "\<not> startswith_dot f"
    and "category_of env f = Some t" and "move_error env f = None"
    and "\<forall>c'. map_of (files st) t \<noteq> Some (File c')"
  shows "map_of (files st1) f = None
      \<and> (\<exists>es k. map_of (files st1) t = Some (Dir es)
            \<and> map_of es (candidate f k) = Some (File c)
            \<and> (\<forall>j<k. map_of es (candidate f j) \<noteq> None))"
proof -
  from assms(4) have ft: "f \<noteq> t" by (rule category_of_SomeD(3))
  from assms(2) have nd: "\<not> os_path_isdir (files st) f" by (simp add: os_path_isdir_def)
  with assms(1,3,4) have "move_file_into env st t f = Returns st1"
    by (simp add: sort_loop_single move_file_category)
  from move_file_into_moves [OF this assms(2) ft assms(5,6)] show ?thesis .
qed

lemma sort_loop_moves:
  assumes "sort_loop EXTENSION_MAP env ns st = Returns st'" and "f \<in> set ns"
    and "map_of (files st) f = Some (File c)" and "\<not> startswith_dot f"
    and "category_of env f = Some t" and "move_error env f = None"
    and "\<forall>c'. map_of (files st) t \<noteq> Some (File c')"
  shows "map_of (files st') f = None
      \<and> (\<exists>es k. map_of (files st') t = Some (Dir es)
            \<and> map_of es (candidate f k) = Some (File c)
            \<and> (\<forall>j<k. map_of es (candidate f j) \<noteq> None))"
  using assms(1,2,3,7)
proof (induction ns arbitrary: st)
  case Nil
  then show ?case by simp
next
  case (Cons n ns)
  from Cons.prems(1) obtain st1 where s1: "sort_loop EXTENSION_MAP env [n] st = Returns st1"
    and rest: "sort_loop EXTENSION_MAP env ns st1 = Returns st'"
    by (subst (asm) sort_loop_Cons) (auto split: outcome.splits)
  show ?case
  proof (cases "n = f")
    case True
    from step_moves [OF s1 [unfolded True] Cons.prems(3) assms(4,5,6) Cons.prems(4)]
    obtain es k where a: "map_of (files st1) f = None" "map_of (files st1) t = Some (Dir es)"
      "map_of es (candidate f k) = Some (File c)" "\<forall>j<k. map_of es (candidate f j) \<noteq> None"
      by blast
    from rest have run: "state_of (sort_loop EXTENSION_MAP env ns st1) = Some st'" by simp
    have "\<forall>n. category_of env n \<noteq> Some f"
      using assms(5) category_of_SomeD(2) by fastforce
    from sort_loop_none [OF run a(1) this] have 1: "map_of (files st') f = None" .
    from sort_loop_dir_kept [OF run a(2)] obtain es' where
      es': "map_of (files st') t = Some (Dir es')" "keeps es es'" by blast
    from es'(2) a(3,4) have "map_of es' (candidate f k) = Some (File c)"
      "\<forall>j<k. map_of es' (candidate f j) \<noteq> None"
      by (auto simp: keeps_def)
    with 1 es'(1) show ?thesis by blast
  next
    case False
    from s1 have step: "state_of (sort_loop EXTENSION_MAP env [n] st) = Some st1" by simp
    from False Cons.prems(2) have "f \<in> set ns" by simp
    moreover from step_file_kept [OF step Cons.prems(3)] False
    have "map_of (files st1) f = Some (File c)" by simp
    moreover have "\<forall>c'. map_of (files st1) t \<noteq> Some (File c')"
      using step_file_old [OF step] Cons.prems(4) by blast
    ultimately show ?thesis using Cons.IH [OF rest] by blast
  qed
qed

text \<open>
  Claim C1, as the code has it. Take a file of the watched directory that is not
  hidden and whose lower-case extension is listed for the category \<open>t\<close>. When
  \<^verbatim>\<open>sort_files\<close> returns, and the move of this file could not fail (the environment
  raises no exception for it, and the name \<open>t\<close> is not taken by a file), the file is no
  longer in the watched directory and is in the folder \<open>t\<close> with its content, under its
  own name or, when that name and the suffixes before \<open>k\<close> were taken, under the name
  with the suffix \<open>(k)\<close>.
\<close>

theorem sort_files_moves_file:
  assumes "sort_files EXTENSION_MAP env st = Returns st'"
    and "map_of (files st) filename = Some (File c)" and "\<not> startswith_dot filename"
    and "(t, exts) \<in> set EXTENSION_MAP" and "lower env (snd (splitext filename)) \<in> set exts"
    and "move_error env filename = None"
    and "\<forall>c'. map_of (files st) t \<noteq> Some (File c')"
  shows "map_of (files st') filename = None
      \<and> (\<exists>es k. map_of (files st') t = Some (Dir es)
            \<and> map_of es (candidate filename k) = Some (File c)
            \<and> (\<forall>j<k. map_of es (candidate filename j) \<noteq> None))"
proof -
  from assms(1) have run: "sort_loop EXTENSION_MAP env (map fst (files st)) st = Returns st'"
    by (cases "listdir_error env") (simp_all add: sort_files_def os_listdir_def)
  from assms(2) have mem: "filename \<in> set (map fst (files st))"
    by (metis map_of_eq_None_iff option.distinct(1) set_map)
  from assms(4,5) have "category_of env filename = Some t"
    unfolding category_of_Some_iff by blast
  from sort_loop_moves [OF run mem assms(2,3) this assms(6,7)] show ?thesis .
qed

theorem sort_files_moves_file_witness:
  "sort_files EXTENSION_MAP no_faults example_state = Returns example_sorted
   \<and> map_of (files example_state) ''photo.PNG'' = Some (File 1)
   \<and> \<not> startswith_dot ''photo.PNG''
   \<and> (''Images'', [''.jpg'', ''.jpeg'', ''.png'', ''.gif'', ''.svg'', ''.bmp'', ''.webp''])
        \<in> set EXTENSION_MAP
   \<and> lower (no_faults :: nat environment) (snd (splitext ''photo.PNG''))
        \<in> set [''.jpg'', ''.jpeg'', ''.png'', ''.gif'', ''.svg'', ''.bmp'', ''.webp'']
   \<and> move_error (no_faults :: nat environment) ''photo.PNG'' = None
   \<and> map_of (files example_state) ''Images'' = None
   \<and> map_of (files example_sorted) ''photo.PNG'' = None
   \<and> (\<exists>es k. map_of (files example_sorted) ''Images'' = Some (Dir es)
            \<and> map_of es (candidate ''photo.PNG'' k) = Some (File 1))"
proof -
  let ?exts = "[''.jpg'', ''.jpeg'', ''.png'', ''.gif'', ''.svg'', ''.bmp'', ''.webp'']"
  have h: "map_of (files example_state) ''photo.PNG'' = Some (File 1)"
    "\<not> startswith_dot ''photo.PNG''"
    "(''Images'', ?exts) \<in> set EXTENSION_MAP"
    "lower (no_faults :: nat environment) (snd (splitext ''photo.PNG'')) \<in> set ?exts"
    "move_error (no_faults :: nat environment) ''photo.PNG'' = None"
    "map_of (files example_state) ''Images'' = None"
    by (simp_all add: example_state_def eval_defs)
  from h(6) have h7: "\<forall>c'. map_of (files example_state) ''Images'' \<noteq> Some (File c')" by simp
  from sort_files_moves_file [OF example_run h(1,2,3,4,5) h7]
  have c: "map_of (files example_sorted) ''photo.PNG'' = None
      \<and> (\<exists>es k. map_of (files example_sorted) ''Images'' = Some (Dir es)
            \<and> map_of es (candidate ''photo.PNG'' k) = Some (File 1))"
    by blast
  from example_run h c [THEN conjunct1] c [THEN conjunct2] show ?thesis by (intro conjI)
qed

text \<open>
  The claim as it is written fails where the move fails: with a file called \<open>Images\<close>
  in the watched directory, \<open>a.png\<close> cannot be moved into a folder of that name. The
  run returns, the failure is printed, and \<open>a.png\<close> is where it was.
\<close>

theorem sort_files_blocked_counterexample:
  "sort_files EXTENSION_MAP no_faults example_blocked
     = Returns \<lparr>files = [(''Images'', File 0), (''a.png'', File 1)],
                 stdout = [MoveFailed ''a.png'' NotADirectoryError]\<rparr>
   \<and> map_of (files example_blocked) ''a.png'' = Some (File 1)
   \<and> \<not> startswith_dot ''a.png''
   \<and> lower (no_faults :: nat environment) (snd (splitext ''a.png''))
        \<in> set (snd (EXTENSION_MAP ! 0))
   \<and> map_of [(''Images'', File (0::nat)), (''a.png'', File 1)] ''a.png'' = Some (File 1)
   \<and> \<not> exists_in [(''Images'', File (0::nat)), (''a.png'', File 1)] ''Images'' ''a.png''"
  by (simp add: example_blocked_def eval_defs)

section \<open>Running twice\<close>

lemma category_of_cong:
  "unicode_lower env' = unicode_lower env \<Longrightarrow> category_of env' n = category_of env n"
  by (simp add: category_of_def lower_def)

text \<open>
  A file that a step has looked at and that is still in the watched directory has had
  its failure printed.
\<close>

lemma step_taken_logged:
  assumes "sort_loop EXTENSION_MAP env [n] st = Returns st1"
    and "map_of (files st1) n = Some (File c)" and "\<not> startswith_dot n"
    and "category_of env n = Some t"
  shows "\<exists>e. stdout st1 = stdout st @ [MoveFailed n e]"
proof -
  from assms(1) have "state_of (sort_loop EXTENSION_MAP env [n] st) = Some st1" by simp
  then show ?thesis
  proof (cases rule: sort_step_cases)
    case skipped
    with assms(2) have "\<not> os_path_isdir (files st) n" by (simp add: os_path_isdir_def)
    with skipped(1) assms(3,4) show ?thesis by simp
  next
    case (raised t' e)
    with assms(1) show ?thesis by simp
  next
    case (failed t' e k)
    with assms(1) show ?thesis by auto
  next
    case (moved t' k)
    from moved_map_of [OF moved(5) moved(1) moved(6)] have "map_of (files st1) n = None"
      by auto
    with assms(2) show ?thesis by simp
  qed
qed

lemma accounted_step:
  assumes "sort_loop EXTENSION_MAP env [n] st = Returns st1"
    and "accounted env (files st) (insert n todo) outs"
  shows "\<exists>out. stdout st1 = stdout st @ out \<and> accounted env (files st1) todo (outs @ out)"
proof -
  from assms(1) have s: "state_of (sort_loop EXTENSION_MAP env [n] st) = Some st1" by simp
  from step_stdout [OF s] obtain out where out: "stdout st1 = stdout st @ out" by blast
  have "accounted env (files st1) todo (outs @ out)"
    unfolding accounted_def
  proof (intro allI impI)
    fix m c t
    assume a: "map_of (files st1) m = Some (File c) \<and> \<not> startswith_dot m
        \<and> category_of env m = Some t"
    then have old: "map_of (files st) m = Some (File c)" using step_file_old [OF s] by blast
    show "m \<in> todo \<or> (\<exists>e. MoveFailed m e \<in> set (outs @ out))"
    proof (cases "m = n")
      case True
      with a step_taken_logged [OF assms(1), of c t]
      obtain e where "stdout st1 = stdout st @ [MoveFailed n e]" by blast
      with out have "out = [MoveFailed n e]" by simp
      with True show ?thesis by auto
    next
      case False
      with assms(2) old a have "m \<in> todo \<or> (\<exists>e. MoveFailed m e \<in> set outs)"
        unfolding accounted_def by blast
      then show ?thesis by auto
    qed
  qed
  with out show ?thesis by blast
qed

lemma accounted_run:
  "sort_loop EXTENSION_MAP env ns st = Returns st' \<Longrightarrow>
   accounted env (files st) (set ns) outs \<Longrightarrow>
     \<exists>out. stdout st' = stdout st @ out \<and> accounted env (files st') {} (outs @ out)"
proof (induction ns arbitrary: st outs)
  case Nil
  then show ?case by simp
next
  case (Cons n ns)
  from Cons.prems(1) obtain st1 where s1: "sort_loop EXTENSION_MAP env [n] st = Returns st1"
    and rest: "sort_loop EXTENSION_MAP env ns st1 = Returns st'"
    by (subst (asm) sort_loop_Cons) (auto split: outcome.splits)
  from Cons.prems(2) have "accounted env (files st) (insert n (set ns)) outs" by simp
  from accounted_step [OF s1 this] obtain o1 where o1: "stdout st1 = stdout st @ o1"
    "accounted env (files st1) (set ns) (outs @ o1)" by blast
  from Cons.IH [OF rest o1(2)] obtain o2 where o2: "stdout st' = stdout st1 @ o2"
    "accounted env (files st') {} ((outs @ o1) @ o2)" by blast
  with o1(1) show ?case by (intro exI [of _ "o1 @ o2"]) simp
qed

lemma accounted_initial: "accounted env d (set (map fst d)) outs"
  by (force simp: accounted_def dest: map_of_SomeD)

text \<open>A loop over names of which none is a file to be moved changes nothing.\<close>

lemma quiet_loop:
  assumes "\<forall>n \<in> set ns. os_path_isdir (files s) n \<or> startswith_dot n \<or> category_of env n = None"
  shows "sort_loop EXTENSION_MAP env ns s = Returns s"
  using assms
proof (induction ns)
  case Nil
  show ?case by simp
next
  case (Cons n ns)
  then have "sort_loop EXTENSION_MAP env [n] s = Returns s"
    by (auto simp: sort_loop_single move_file_category)
  from sort_loop_step_Returns [OF this] Cons show ?case by simp
qed

text \<open>
  Claim C9, as the code has it. Let a first run of \<^verbatim>\<open>sort_files\<close> return, and let no
  line it has printed be the line of a failure. Then a second run on the directory as
  the first has left it changes nothing and prints nothing: it returns with the very
  state it started from. This holds whatever fails in the second run, as long as
  \<^verbatim>\<open>os.listdir\<close> does not (and \<^verbatim>\<open>str.lower\<close> is the same function in both runs).
\<close>

theorem second_run_is_noop:
  assumes "sort_files EXTENSION_MAP env st = Returns st1"
    and "stdout st1 = stdout st @ out"
    and "\<forall>n e. MoveFailed n e \<notin> set out"
    and "unicode_lower env' = unicode_lower env"
    and "listdir_error env' = None"
  shows "sort_files EXTENSION_MAP env' st1 = Returns st1"
proof -
  from assms(1) have run: "sort_loop EXTENSION_MAP env (map fst (files st)) st = Returns st1"
    by (cases "listdir_error env") (simp_all add: sort_files_def os_listdir_def)
  from accounted_run [OF run accounted_initial [of env "files st" "[]"]]
  obtain out' where "stdout st1 = stdout st @ out'" "accounted env (files st1) {} ([] @ out')"
    by blast
  with assms(2) have acc: "accounted env (files st1) {} out" by simp
  have "\<forall>n \<in> set (map fst (files st1)).
      os_path_isdir (files st1) n \<or> startswith_dot n \<or> category_of env' n = None"
  proof
    fix n assume "n \<in> set (map fst (files st1))"
    then obtain y where y: "map_of (files st1) n = Some y"
      by (metis map_of_eq_None_iff not_None_eq set_map)
    show "os_path_isdir (files st1) n \<or> startswith_dot n \<or> category_of env' n = None"
    proof (cases y)
      case (Dir es)
      with y show ?thesis by (simp add: os_path_isdir_def)
    next
      case (File c)
      have "startswith_dot n \<or> category_of env n = None"
      proof (rule ccontr)
        assume "\<not> (startswith_dot n \<or> category_of env n = None)"
        then obtain t where "\<not> startswith_dot n" "category_of env n = Some t" by auto
        with acc y File have "\<exists>e. MoveFailed n e \<in> set out"
          unfolding accounted_def by blast
        with assms(3) show False by blast
      qed
      then show ?thesis by (simp add: category_of_cong [OF assms(4)])
    qed
  qed
  from quiet_loop [OF this] assms(5) show ?thesis
    by (simp add: sort_files_def os_listdir_def)
qed

theorem second_run_is_noop_witness:
  "sort_files EXTENSION_MAP no_faults example_state = Returns example_sorted
   \<and> stdout example_sorted
       = stdout example_state
         @ [Moved ''photo.PNG'' ''photo.PNG'', Moved ''archive.zip'' ''archive(1).zip'']
   \<and> unicode_lower move_denied = unicode_lower (no_faults :: nat environment)
   \<and> listdir_error move_denied = None
   \<and> sort_files EXTENSION_MAP move_denied example_sorted = Returns example_sorted"
proof -
  let ?out = "[Moved ''photo.PNG'' ''photo.PNG'', Moved ''archive.zip'' ''archive(1).zip'']"
  have h: "stdout example_sorted = stdout example_state @ ?out"
    "\<forall>n e. MoveFailed n e \<notin> set ?out"
    "unicode_lower move_denied = unicode_lower (no_faults :: nat environment)"
    "listdir_error move_denied = None"
    by (simp_all add: example_state_def example_sorted_def move_denied_def no_faults_def)
  from second_run_is_noop [OF example_run h]
  have "sort_files EXTENSION_MAP move_denied example_sorted = Returns example_sorted" .
  with example_run h(1,3,4) show ?thesis by (intro conjI)
qed

text \<open>
  The claim as it is written fails after a first run in which a move has failed: the
  file is still in the watched directory and the second run tries to move it again.
  With the move of \<open>a.png\<close> raising after the copy has been made, the first run leaves
  \<open>a.png\<close> in place and a copy in \<open>Images\<close>; the second run finds that name taken,
  leaves a second copy \<open>a(1).png\<close> and prints the failure again.
\<close>

theorem second_run_counterexample:
  "sort_files EXTENSION_MAP move_denied example_two
     = Returns \<lparr>files = [(''a.png'', File 1), (''Images'', Dir [(''a.png'', File 1)]),
                          (''Documents'', Dir [(''b.pdf'', File 2)])],
                 stdout = [MoveFailed ''a.png'' (OtherError ''Permission denied''),
                           Moved ''b.pdf'' ''b.pdf'']\<rparr>
   \<and> sort_files EXTENSION_MAP move_denied
        \<lparr>files = [(''a.png'', File 1), (''Images'', Dir [(''a.png'', File 1)]),
                  (''Documents'', Dir [(''b.pdf'', File 2)])],
         stdout = [MoveFailed ''a.png'' (OtherError ''Permission denied''),
                   Moved ''b.pdf'' ''b.pdf'']\<rparr>
     = Returns \<lparr>files = [(''a.png'', File 1),
                          (''Images'', Dir [(''a.png'', File 1), (''a(1).png'', File 1)]),
                          (''Documents'', Dir [(''b.pdf'', File 2)])],
                 stdout = [MoveFailed ''a.png'' (OtherError ''Permission denied''),
                           Moved ''b.pdf'' ''b.pdf'',
                           MoveFailed ''a.png'' (OtherError ''Permission denied'')]\<rparr>
   \<and> [(''a.png'', File (1::nat)),
       (''Images'', Dir [(''a.png'', File 1), (''a(1).png'', File 1)]),
       (''Documents'', Dir [(''b.pdf'', File 2)])]
     \<noteq> [(''a.png'', File 1), (''Images'', Dir [(''a.png'', File 1)]),
        (''Documents'', Dir [(''b.pdf'', File 2)])]"
proof -
  have 1: "sort_files EXTENSION_MAP move_denied example_two
     = Returns \<lparr>files = [(''a.png'', File 1), (''Images'', Dir [(''a.png'', File 1)]),
                          (''Documents'', Dir [(''b.pdf'', File 2)])],
                 stdout = [MoveFailed ''a.png'' (OtherError ''Permission denied''),
                           Moved ''b.pdf'' ''b.pdf'']\<rparr>"
    by (simp add: example_two_def move_denied_def eval_defs)
  have 2: "sort_files EXTENSION_MAP move_denied
        \<lparr>files = [(''a.png'', File 1), (''Images'', Dir [(''a.png'', File 1)]),
                  (''Documents'', Dir [(''b.pdf'', File 2)])],
         stdout = [MoveFailed ''a.png'' (OtherError ''Permission denied''),
                   Moved ''b.pdf'' ''b.pdf'']\<rparr>
     = Returns \<lparr>files = [(''a.png'', File 1),
                          (''Images'', Dir [(''a.png'', File 1), (''a(1).png'', File 1)]),
                          (''Documents'', Dir [(''b.pdf'', File 2)])],
                 stdout = [MoveFailed ''a.png'' (OtherError ''Permission denied''),
                           Moved ''b.pdf'' ''b.pdf'',
                           MoveFailed ''a.png'' (OtherError ''Permission denied'')]\<rparr>"
    by (simp add: move_denied_def eval_defs)
  have 3: "[(''a.png'', File (1::nat)),
       (''Images'', Dir [(''a.png'', File 1), (''a(1).png'', File 1)]),
       (''Documents'', Dir [(''b.pdf'', File 2)])]
     \<noteq> [(''a.png'', File 1), (''Images'', Dir [(''a.png'', File 1)]),
        (''Documents'', Dir [(''b.pdf'', File 2)])]"
    by simp
  from 1 2 3 show ?thesis by (intro conjI)
qed

end
